theory Spec2Isabelle
  imports Main
begin

section \<open>JavaScript strings and values\<close>

text \<open>
  A JavaScript string is a sequence of UTF-16 code units. The model covers the strings
  whose code units lie in U+0000..U+00FF: a \<^typ>\<open>char\<close> is one such code unit and
  a \<^typ>\<open>string\<close> is the sequence. A value that may be \<^verbatim>\<open>null\<close> or
  \<^verbatim>\<open>undefined\<close> is a \<^typ>\<open>string option\<close>, with \<^const>\<open>None\<close> for both.
\<close>

text \<open>Truthiness of a string-or-absent value: absent and the empty string are falsy.\<close>

definition truthy :: "string option \<Rightarrow> bool" where
  "truthy v = (case v of None \<Rightarrow> False | Some s \<Rightarrow> s \<noteq> [])"

text \<open>
  \<^verbatim>\<open>String.prototype.toLowerCase\<close> on one code unit below U+0100: the upper-case letters
  are U+0041..U+005A and U+00C0..U+00DE without U+00D7, and the lower-case letter is 32
  above, which sets the bit of weight 32.
\<close>

definition isUpperCase :: "char \<Rightarrow> bool" where
  "isUpperCase c =
     (let n = (of_char c :: nat)
      in (65 \<le> n \<and> n \<le> 90) \<or> (192 \<le> n \<and> n \<le> 222 \<and> n \<noteq> 215))"

definition toLowerCase_unit :: "char \<Rightarrow> char" where
  "toLowerCase_unit c =
     (if isUpperCase c
      then (case c of Char b0 b1 b2 b3 b4 b5 b6 b7 \<Rightarrow> Char b0 b1 b2 b3 b4 True b6 b7)
      else c)"

definition toLowerCase :: "string \<Rightarrow> string" where
  "toLowerCase s = map toLowerCase_unit s"

text \<open>
  The code units below U+0100 that \<^verbatim>\<open>String.prototype.trim\<close> removes: TAB, LF, VT, FF,
  CR, SPACE and NO-BREAK SPACE.
\<close>

definition isWhiteSpace :: "char \<Rightarrow> bool" where
  "isWhiteSpace c = (of_char c \<in> {9, 10, 11, 12, 13, 32, 160 :: nat})"

definition trim :: "string \<Rightarrow> string" where
  "trim s = rev (dropWhile isWhiteSpace (rev (dropWhile isWhiteSpace s)))"

section \<open>The pending-lead store\<close>

subsection \<open>normalizeLinkedInUrl\<close>

text \<open>\<^verbatim>\<open>url.split('?')[0]\<close>: the part before the first question mark.\<close>

definition split_query_0 :: "string \<Rightarrow> string" where
  "split_query_0 s = takeWhile (\<lambda>c. c \<noteq> CHR ''?'') s"

text \<open>\<^verbatim>\<open>url.replace(/\/+$/, '')\<close>: the trailing run of slashes is removed.\<close>

definition strip_trailing_slashes :: "string \<Rightarrow> string" where
  "strip_trailing_slashes s = rev (dropWhile (\<lambda>c. c = CHR ''/'') (rev s))"

text \<open>
  \<^verbatim>\<open>url.match(/linkedin\.com\/in\/([^\/]+)/)\<close>: the leftmost position where the literal
  \<^verbatim>\<open>linkedin.com/in/\<close> is followed by a code unit other than a slash; the group is the
  longest run of such code units from there. \<^const>\<open>None\<close> when there is no match.
\<close>

fun linkedin_match :: "string \<Rightarrow> string option" where
  "linkedin_match [] = None"
| "linkedin_match (c # cs) =
     (let rest = drop 16 (c # cs)
      in if take 16 (c # cs) = ''linkedin.com/in/'' \<and> rest \<noteq> [] \<and> hd rest \<noteq> CHR ''/''
         then Some (takeWhile (\<lambda>x. x \<noteq> CHR ''/'') rest)
         else linkedin_match cs)"

definition normalizeLinkedInUrl :: "string option \<Rightarrow> string option" where
  "normalizeLinkedInUrl linkedinUrl =
     (case linkedinUrl of
        None \<Rightarrow> None
      | Some s \<Rightarrow>
          if s = [] then None
          else
            let url = trim (toLowerCase s);
                url = split_query_0 url;
                url = strip_trailing_slashes url
            in (case linkedin_match url of
                  Some handle \<Rightarrow> Some (''https://www.linkedin.com/in/'' @ handle)
                | None \<Rightarrow> Some url))"

subsection \<open>The store\<close>

text \<open>The lead that the engagement handler extracts from a webhook payload.\<close>

record lead =
  linkedinUrl :: "string option"
  name :: string
  firstName :: string
  lastName :: string
  company :: string
  title :: string
  conversation :: string
  taggedAt :: string
  tag :: string

text \<open>A stored lead: the lead's fields and the time of insertion.\<close>

record pending_lead = lead +
  addedAt :: string

text \<open>
  \<^verbatim>\<open>pendingLeads\<close> is a \<^verbatim>\<open>Map\<close> from the normalized URL to the stored lead. No
  operation depends on its iteration order.
\<close>

type_synonym lead_store = "string \<rightharpoonup> pending_lead"

text \<open>
  \<^verbatim>\<open>addPendingLead(lead)\<close>; \<open>nowIso\<close> is the value of
  \<^verbatim>\<open>new Date().toISOString()\<close> at the call. The result is the returned key and the store.
\<close>

definition addPendingLead ::
  "string \<Rightarrow> lead \<Rightarrow> lead_store \<Rightarrow> string option \<times> lead_store" where
  "addPendingLead nowIso l pendingLeads =
     (case normalizeLinkedInUrl (linkedinUrl l) of
        None \<Rightarrow> (None, pendingLeads)
      | Some normalizedUrl \<Rightarrow>
          if normalizedUrl = [] then (None, pendingLeads)
          else (Some normalizedUrl,
                pendingLeads(normalizedUrl \<mapsto>
                  lead.extend (l\<lparr>linkedinUrl := Some normalizedUrl\<rparr>)
                    (pending_lead.fields nowIso))))"

text \<open>\<^verbatim>\<open>getPendingLead(linkedinUrl)\<close>: every stored value is an object, hence truthy.\<close>

definition getPendingLead ::
  "string option \<Rightarrow> lead_store \<Rightarrow> pending_lead option \<times> lead_store" where
  "getPendingLead url pendingLeads =
     (case normalizeLinkedInUrl url of
        None \<Rightarrow> (None, pendingLeads)
      | Some normalizedUrl \<Rightarrow>
          if normalizedUrl = [] then (None, pendingLeads)
          else (case pendingLeads normalizedUrl of
                  None \<Rightarrow> (None, pendingLeads)
                | Some l \<Rightarrow> (Some l, pendingLeads(normalizedUrl := None))))"

definition hasPendingLead :: "string option \<Rightarrow> lead_store \<Rightarrow> bool \<times> lead_store" where
  "hasPendingLead url pendingLeads =
     (case normalizeLinkedInUrl url of
        None \<Rightarrow> (False, pendingLeads)
      | Some normalizedUrl \<Rightarrow>
          if normalizedUrl = [] then (False, pendingLeads)
          else (pendingLeads normalizedUrl \<noteq> None, pendingLeads))"

section \<open>The platform's URL and Date\<close>

subsection \<open>URL records\<close>

text \<open>
  A URL record of the URL Standard, as the constructor \<^verbatim>\<open>new URL(s)\<close> builds it. The host
  is kept in its serialized form; a path is either opaque (one string) or a list of
  segments.
\<close>

datatype url_path = Opaque string | Segments "string list"

record url =
  scheme :: string
  username :: string
  password :: string
  host :: "string option"
  port :: "nat option"
  path :: url_path
  query :: "string option"
  fragment :: "string option"

fun decimal :: "nat \<Rightarrow> string" where
  "decimal n =
     (if n < 10 then [char_of (48 + n)]
      else decimal (n div 10) @ [char_of (48 + n mod 10)])"

fun serialize_path :: "url_path \<Rightarrow> string" where
  "serialize_path (Opaque s) = s"
| "serialize_path (Segments segs) = concat (map (\<lambda>seg. CHR ''/'' # seg) segs)"

text \<open>The URL serializer: the value of \<^verbatim>\<open>u.toString()\<close> and of \<^verbatim>\<open>u.href\<close>.\<close>

definition href :: "url \<Rightarrow> string" where
  "href u =
     scheme u @ '':'' @
     (case host u of
        Some h \<Rightarrow>
          ''//'' @
          (if username u \<noteq> [] \<or> password u \<noteq> []
           then username u @ (if password u \<noteq> [] then '':'' @ password u else []) @ ''@''
           else []) @
          h @
          (case port u of Some p \<Rightarrow> '':'' @ decimal p | None \<Rightarrow> [])
      | None \<Rightarrow>
          (case path u of
             Segments (seg # seg' # segs) \<Rightarrow> (if seg = [] then ''/.'' else [])
           | _ \<Rightarrow> [])) @
     serialize_path (path u) @
     (case query u of Some q \<Rightarrow> ''?'' @ q | None \<Rightarrow> []) @
     (case fragment u of Some f \<Rightarrow> ''#'' @ f | None \<Rightarrow> [])"

text \<open>
  The setter \<^verbatim>\<open>u.hash = ''\<close>: the fragment becomes null, and an opaque path of a URL with
  no query loses its trailing spaces. The query is not touched.
\<close>

definition set_hash_empty :: "url \<Rightarrow> url" where
  "set_hash_empty u =
     (case path u of
        Opaque s \<Rightarrow>
          if query u = None
          then u\<lparr>fragment := None,
                 path := Opaque (rev (dropWhile (\<lambda>c. c = CHR '' '') (rev s)))\<rparr>
          else u\<lparr>fragment := None\<rparr>
      | Segments segs \<Rightarrow> u\<lparr>fragment := None\<rparr>)"

subsection \<open>The constructor on plain web addresses\<close>

text \<open>
  The functions of the repository take the constructor as a parameter \<open>parseUrl\<close>, which
  gives \<^const>\<open>None\<close> where \<^verbatim>\<open>new URL(s)\<close> throws. \<open>newURL\<close> below is the
  constructor on the inputs of the form
  \<^verbatim>\<open>http(s)://host[/path][?query][#fragment]\<close> whose host is made of dot-separated labels
  of lower-case ASCII letters, whose path is made of slashes, ASCII letters, digits and
  \<^verbatim>\<open>_ ~ -\<close>, and whose query and fragment are made of ASCII letters, digits and
  \<^verbatim>\<open>_ ~ - = & .\<close>: there the parser only splits its input. It is used for the
  evaluation of concrete examples of that form, and says nothing on other inputs.
\<close>

definition isLowerAlpha :: "char \<Rightarrow> bool" where
  "isLowerAlpha c = (let n = (of_char c :: nat) in 97 \<le> n \<and> n \<le> 122)"

definition isAlnum :: "char \<Rightarrow> bool" where
  "isAlnum c =
     (let n = (of_char c :: nat)
      in (97 \<le> n \<and> n \<le> 122) \<or> (65 \<le> n \<and> n \<le> 90) \<or> (48 \<le> n \<and> n \<le> 57))"

definition isPathUnit :: "char \<Rightarrow> bool" where
  "isPathUnit c = (isAlnum c \<or> c \<in> set ''/_~-'')"

definition isQueryUnit :: "char \<Rightarrow> bool" where
  "isQueryUnit c = (isAlnum c \<or> c \<in> set ''_~-=&.'')"

text \<open>The pieces of a string between the occurrences of a separator.\<close>

fun split_on :: "char \<Rightarrow> string \<Rightarrow> string list" where
  "split_on sep [] = [[]]"
| "split_on sep (c # cs) =
     (case split_on sep cs of
        [] \<Rightarrow> [[c]]
      | piece # pieces \<Rightarrow> if c = sep then [] # piece # pieces else (c # piece) # pieces)"

text \<open>The part after the first occurrence of a separator, if there is one.\<close>

definition after_first :: "char \<Rightarrow> string \<Rightarrow> string option" where
  "after_first sep s =
     (case dropWhile (\<lambda>c. c \<noteq> sep) s of [] \<Rightarrow> None | c # rest \<Rightarrow> Some rest)"

definition before_first :: "char \<Rightarrow> string \<Rightarrow> string" where
  "before_first sep s = takeWhile (\<lambda>c. c \<noteq> sep) s"

definition strip_scheme :: "string \<Rightarrow> (string \<times> string) option" where
  "strip_scheme s =
     (if take 8 s = ''https://'' then Some (''https'', drop 8 s)
      else if take 7 s = ''http://'' then Some (''http'', drop 7 s)
      else None)"

definition host_ok :: "string \<Rightarrow> bool" where
  "host_ok h = list_all (\<lambda>label. label \<noteq> [] \<and> list_all isLowerAlpha label) (split_on CHR ''.'' h)"

definition newURL :: "string \<Rightarrow> url option" where
  "newURL s =
     (let frag = after_first CHR ''#'' s;
          s1 = before_first CHR ''#'' s;
          qry = after_first CHR ''?'' s1;
          s2 = before_first CHR ''?'' s1
      in case strip_scheme s2 of
           None \<Rightarrow> None
         | Some (sch, rest) \<Rightarrow>
             let h = before_first CHR ''/'' rest;
                 p = dropWhile (\<lambda>c. c \<noteq> CHR ''/'') rest
             in if host_ok h \<and> list_all isPathUnit p
                   \<and> (case qry of None \<Rightarrow> True | Some q \<Rightarrow> list_all isQueryUnit q)
                   \<and> (case frag of None \<Rightarrow> True | Some f \<Rightarrow> list_all isQueryUnit f)
                then Some \<lparr>scheme = sch, username = [], password = [], host = Some h,
                           port = None,
                           path = Segments (if p = [] then [[]] else split_on CHR ''/'' (tl p)),
                           query = qry, fragment = frag\<rparr>
                else None)"

subsection \<open>Date\<close>

text \<open>
  \<^verbatim>\<open>new Date(s).getTime()\<close> is a parameter \<open>getTime\<close> of the functions of the
  repository, with \<^const>\<open>None\<close> for \<^verbatim>\<open>NaN\<close>. \<open>Date_getTime\<close> below is that
  function on the strings \<^verbatim>\<open>YYYY-MM-DDTHH:mm:ssZ\<close> and \<^verbatim>\<open>YYYY-MM-DDTHH:mm:ss.sssZ\<close>
  of the ECMAScript date-time format that name a valid UTC date and time; it is used for
  the evaluation of concrete examples of that form.
\<close>

definition digit :: "char \<Rightarrow> nat option" where
  "digit c = (let n = (of_char c :: nat) in if 48 \<le> n \<and> n \<le> 57 then Some (n - 48) else None)"

fun number :: "nat \<Rightarrow> string \<Rightarrow> nat option" where
  "number acc [] = Some acc"
| "number acc (c # cs) = (case digit c of None \<Rightarrow> None | Some d \<Rightarrow> number (10 * acc + d) cs)"

definition isLeapYear :: "nat \<Rightarrow> bool" where
  "isLeapYear y = (y mod 4 = 0 \<and> (y mod 100 \<noteq> 0 \<or> y mod 400 = 0))"

definition daysInMonth :: "nat \<Rightarrow> nat \<Rightarrow> nat" where
  "daysInMonth y m =
     (if m = 2 then (if isLeapYear y then 29 else 28)
      else if m \<in> {4, 6, 9, 11} then 30 else 31)"

text \<open>The number of days from 1970-01-01 to the given day of the Gregorian calendar.\<close>

definition daysFromEpoch :: "nat \<Rightarrow> nat \<Rightarrow> nat \<Rightarrow> int" where
  "daysFromEpoch y m d =
     (let y' = (if m \<le> 2 then int y - 1 else int y);
          era = y' div 400;
          yoe = y' - era * 400;
          mp = (if m > 2 then int m - 3 else int m + 9);
          doy = (153 * mp + 2) div 5 + int d - 1;
          doe = yoe * 365 + yoe div 4 - yoe div 100 + doy
      in era * 146097 + doe - 719468)"

definition Date_getTime :: "string \<Rightarrow> int option" where
  "Date_getTime s =
     (if (length s = 20 \<or> length s = 24 \<and> s ! 19 = CHR ''.'')
         \<and> s ! 4 = CHR ''-'' \<and> s ! 7 = CHR ''-'' \<and> s ! 10 = CHR ''T''
         \<and> s ! 13 = CHR '':'' \<and> s ! 16 = CHR '':'' \<and> last s = CHR ''Z''
      then
        (case (number 0 (take 4 s), number 0 (take 2 (drop 5 s)), number 0 (take 2 (drop 8 s)),
               number 0 (take 2 (drop 11 s)), number 0 (take 2 (drop 14 s)),
               number 0 (take 2 (drop 17 s)),
               if length s = 24 then number 0 (take 3 (drop 20 s)) else Some 0) of
           (Some y, Some m, Some d, Some hh, Some mm, Some ss, Some ms) \<Rightarrow>
             if 1 \<le> m \<and> m \<le> 12 \<and> 1 \<le> d \<and> d \<le> daysInMonth y m
                \<and> hh \<le> 23 \<and> mm \<le> 59 \<and> ss \<le> 59
             then Some (daysFromEpoch y m d * 86400000 + int hh * 3600000 + int mm * 60000
                        + int ss * 1000 + int ms)
             else None
         | _ \<Rightarrow> None)
      else None)"

section \<open>The booking store\<close>

text \<open>A booking as the calendar handler hands it to \<^verbatim>\<open>addBooking\<close>.\<close>

record booking =
  eventUuid :: string
  meetingUrl :: "string option"
  startTime :: "string option"
  endTime :: "string option"
  guestEmail :: "string option"
  guestName :: "string option"
  hostEmail :: "string option"

text \<open>A stored booking: \<^verbatim>\<open>{ ...record, createdAt: now }\<close>.\<close>

record stored_booking = booking +
  createdAt :: int

text \<open>
  \<^verbatim>\<open>bookings\<close> is a \<^verbatim>\<open>Map\<close> from the event identifier to the stored booking. A
  \<^verbatim>\<open>Map\<close> iterates in insertion order, so the store is the list of its entries in that
  order. \<^verbatim>\<open>Map.prototype.set\<close> replaces the value of a key that is present, in its
  place, and appends a new key.
\<close>

type_synonym booking_store = "(string \<times> stored_booking) list"

fun Map_set :: "'k \<Rightarrow> 'v \<Rightarrow> ('k \<times> 'v) list \<Rightarrow> ('k \<times> 'v) list" where
  "Map_set k v [] = [(k, v)]"
| "Map_set k v ((k', v') # entries) =
     (if k' = k then (k, v) # entries else (k', v') # Map_set k v entries)"

definition TTL_MS :: int where
  "TTL_MS = 1000 * 60 * 60 * 24"

text \<open>\<^verbatim>\<open>cleanup(now)\<close>: every entry is visited, and deleted when its age exceeds the TTL.\<close>

fun cleanup :: "int \<Rightarrow> booking_store \<Rightarrow> booking_store" where
  "cleanup now [] = []"
| "cleanup now ((key, rec) # entries) =
     (if now - createdAt rec > TTL_MS then cleanup now entries
      else (key, rec) # cleanup now entries)"

text \<open>\<^verbatim>\<open>addBooking(record)\<close>; \<open>now\<close> is the value of \<^verbatim>\<open>Date.now()\<close> at the call.\<close>

definition addBooking :: "int \<Rightarrow> booking \<Rightarrow> booking_store \<Rightarrow> booking_store" where
  "addBooking now recd bookings =
     cleanup now
       (Map_set (eventUuid recd) (booking.extend recd (stored_booking.fields now)) bookings)"

text \<open>
  \<^verbatim>\<open>a.toLowerCase() === b.toLowerCase()\<close> for two values that the code has found truthy
  before.
\<close>

definition toLowerCase_eq :: "string option \<Rightarrow> string option \<Rightarrow> bool" where
  "toLowerCase_eq a b =
     (case (a, b) of (Some x, Some y) \<Rightarrow> toLowerCase x = toLowerCase y | _ \<Rightarrow> False)"

definition emailsAlign :: "stored_booking \<Rightarrow> string option \<Rightarrow> string option \<Rightarrow> bool" where
  "emailsAlign rec guestEmail' hostEmail' =
     (let matchGuest =
            (truthy (booking.guestEmail rec) \<and> truthy guestEmail'
             \<and> toLowerCase_eq (booking.guestEmail rec) guestEmail');
          matchHost =
            (\<not> truthy (booking.hostEmail rec) \<or> \<not> truthy hostEmail'
             \<or> toLowerCase_eq (booking.hostEmail rec) hostEmail')
      in matchGuest \<and> matchHost)"

text \<open>
  \<^verbatim>\<open>normalizeUrl(url)\<close>: the URL is parsed, its fragment is emptied and it is serialized;
  a string that the constructor rejects is returned as it is.
\<close>

definition normalizeUrl :: "(string \<Rightarrow> url option) \<Rightarrow> string \<Rightarrow> string" where
  "normalizeUrl parseUrl s =
     (case parseUrl s of
        Some u \<Rightarrow> href (set_hash_empty u)
      | None \<Rightarrow> s)"

text \<open>The condition of the first \<^verbatim>\<open>if\<close> of the loop body of \<^verbatim>\<open>findMatch\<close>.\<close>

definition urlMatch ::
  "(string \<Rightarrow> url option) \<Rightarrow> string option \<Rightarrow> stored_booking \<Rightarrow> bool" where
  "urlMatch parseUrl meetingUrl' rec =
     (case (meetingUrl', booking.meetingUrl rec) of
        (Some candUrl, Some recUrl) \<Rightarrow>
          candUrl \<noteq> [] \<and> recUrl \<noteq> []
          \<and> normalizeUrl parseUrl recUrl = normalizeUrl parseUrl candUrl
      | _ \<Rightarrow> False)"

text \<open>
  The time-proximity test: both start times are truthy and
  \<^verbatim>\<open>Math.abs(new Date(rec.startTime).getTime() - new Date(startTime).getTime())\<close> is at
  most 15 minutes. A comparison with \<^verbatim>\<open>NaN\<close> is false.
\<close>

definition timeMatch ::
  "(string \<Rightarrow> int option) \<Rightarrow> string option \<Rightarrow> stored_booking \<Rightarrow> bool" where
  "timeMatch getTime startTime' rec =
     (case (startTime', booking.startTime rec) of
        (Some candStart, Some recStart) \<Rightarrow>
          candStart \<noteq> [] \<and> recStart \<noteq> []
          \<and> (case (getTime recStart, getTime candStart) of
                (Some a, Some b) \<Rightarrow> \<bar>a - b\<bar> \<le> 15 * 60 * 1000
              | _ \<Rightarrow> False)
      | _ \<Rightarrow> False)"

text \<open>The loop of \<^verbatim>\<open>findMatch\<close> over the entries, in iteration order.\<close>

fun findMatch_loop ::
  "(string \<Rightarrow> url option) \<Rightarrow> (string \<Rightarrow> int option) \<Rightarrow> string option \<Rightarrow> string option
   \<Rightarrow> string option \<Rightarrow> string option \<Rightarrow> booking_store \<Rightarrow> stored_booking option" where
  "findMatch_loop parseUrl getTime meetingUrl' guestEmail' hostEmail' startTime' [] = None"
| "findMatch_loop parseUrl getTime meetingUrl' guestEmail' hostEmail' startTime'
     ((key, rec) # entries) =
     (if urlMatch parseUrl meetingUrl' rec \<and> emailsAlign rec guestEmail' hostEmail'
      then Some rec
      else if timeMatch getTime startTime' rec \<and> emailsAlign rec guestEmail' hostEmail'
      then Some rec
      else findMatch_loop parseUrl getTime meetingUrl' guestEmail' hostEmail' startTime' entries)"

text \<open>
  \<^verbatim>\<open>findMatch({ meetingUrl, guestEmail, hostEmail, startTime })\<close>; \<open>now\<close> is the value
  of \<^verbatim>\<open>Date.now()\<close> at the call, and the primed parameters are the fields of the
  argument. The result is the returned booking, \<^const>\<open>None\<close> for
  \<^verbatim>\<open>null\<close>, and the store after the sweep.
\<close>

definition findMatch ::
  "(string \<Rightarrow> url option) \<Rightarrow> (string \<Rightarrow> int option) \<Rightarrow> int \<Rightarrow> string option \<Rightarrow> string option
   \<Rightarrow> string option \<Rightarrow> string option \<Rightarrow> booking_store
   \<Rightarrow> stored_booking option \<times> booking_store" where
  "findMatch parseUrl getTime now meetingUrl' guestEmail' hostEmail' startTime' bookings =
     (let live = cleanup now bookings
      in if \<not> truthy meetingUrl' \<and> \<not> truthy startTime' then (None, live)
         else (findMatch_loop parseUrl getTime meetingUrl' guestEmail' hostEmail' startTime' live,
               live))"

section \<open>Polling for a transcript\<close>

text \<open>The retry settings of \<^verbatim>\<open>getConfig()\<close>.\<close>

record retry_config =
  maxAttempts :: nat
  baseDelayMs :: int
  maxDelayMs :: int

record config =
  calendlyPat :: "string option"
  retry :: retry_config

definition getConfig :: "string option \<Rightarrow> config" where
  "getConfig pat =
     \<lparr>calendlyPat = pat,
      retry = \<lparr>maxAttempts = 5, baseDelayMs = 30000, maxDelayMs = 900000\<rparr>\<rparr>"

text \<open>
  The body of the scheduled event that the remote returns: the fields that the code
  reads, each a string when present. The fields \<^verbatim>\<open>transcript\<close>, \<^verbatim>\<open>transcription\<close>
  and \<^verbatim>\<open>summary\<close> of \<^verbatim>\<open>meeting_notes\<close> carry the prefix \<open>notes_\<close> here.
\<close>

record meeting_notes =
  notes_transcript :: "string option"
  notes_transcription :: "string option"
  notes_summary :: "string option"

record event_resource =
  meeting_notes :: "meeting_notes option"
  transcript :: "string option"
  transcription :: "string option"

record response_data = event_resource +
  resource :: "event_resource option"

text \<open>
  An error object: \<^verbatim>\<open>error.response?.status\<close> and \<^verbatim>\<open>error.message\<close>. A fetch either
  rejects with such an error or resolves with a response, whose \<^verbatim>\<open>data\<close> is absent or
  a body.
\<close>

record js_error =
  response_status :: "nat option"
  message :: string

type_synonym fetch_result = "js_error + response_data option"

text \<open>\<^verbatim>\<open>a || b\<close> on values that are strings or absent.\<close>

definition or_else :: "string option \<Rightarrow> string option \<Rightarrow> string option" where
  "or_else a b = (if truthy a then a else b)"

text \<open>
  The statements of the \<^verbatim>\<open>try\<close> block after the request: the transcript is looked up
  in \<^verbatim>\<open>response.data.resource || response.data\<close>. Reading a property of an absent
  \<^verbatim>\<open>data\<close> throws a \<^verbatim>\<open>TypeError\<close>, which has no \<^verbatim>\<open>response\<close>.
\<close>

definition extract_transcript :: "response_data option \<Rightarrow> js_error + string option" where
  "extract_transcript data =
     (case data of
        None \<Rightarrow> Inl \<lparr>response_status = None, message = ''Cannot read properties of undefined''\<rparr>
      | Some d \<Rightarrow>
          let res = (case resource d of Some r \<Rightarrow> r | None \<Rightarrow> event_resource.truncate d);
              meetingNotes = meeting_notes res
          in Inr (or_else (Option.bind meetingNotes notes_transcript)
                   (or_else (Option.bind meetingNotes notes_transcription)
                     (or_else (Option.bind meetingNotes notes_summary)
                       (or_else (transcript res) (transcription res))))))"

text \<open>What one pass through the \<^verbatim>\<open>try\<close>/\<^verbatim>\<open>catch\<close> of an attempt comes to.\<close>

datatype attempt_outcome = Found string | NotReady | Caught js_error

definition attempt_outcome :: "fetch_result \<Rightarrow> attempt_outcome" where
  "attempt_outcome r =
     (case r of
        Inl err \<Rightarrow> Caught err
      | Inr data \<Rightarrow>
          (case extract_transcript data of
             Inl err \<Rightarrow> Caught err
           | Inr t \<Rightarrow>
               (case t of
                  Some text \<Rightarrow> if text \<noteq> [] \<and> length text > 50 then Found text else NotReady
                | None \<Rightarrow> NotReady)))"

text \<open>The effects of a call, in order: log lines, requests and waits.\<close>

datatype log_line =
    PollingAttempt nat nat
  | TranscriptFound nat
  | TranscriptNotReady
  | EventNotFound
  | CalendlyApiError "nat option" string
  | Waiting int

datatype effect = Log string log_line | HttpGet string | Sleep int

text \<open>
  The \<^verbatim>\<open>for\<close> loop of \<^verbatim>\<open>pollForTranscript\<close> from the attempt \<open>attempt\<close> on. The remote
  is the function \<open>fetch\<close> from the number of the attempt to the result of its request;
  \<open>uuid\<close> is the event identifier.
\<close>

function pollLoop ::
  "(nat \<Rightarrow> fetch_result) \<Rightarrow> string \<Rightarrow> config \<Rightarrow> nat \<Rightarrow> string option \<times> effect list" where
  "pollLoop fetch uuid cfg attempt =
     (if attempt \<le> maxAttempts (retry cfg) then
        (let request = [Log ''info'' (PollingAttempt attempt (maxAttempts (retry cfg))),
                        HttpGet (''https://api.calendly.com/scheduled_events/'' @ uuid)];
             wait = (if attempt < maxAttempts (retry cfg)
                     then (let delayMs = baseDelayMs (retry cfg) * 2 ^ (attempt - 1)
                           in [Log ''info'' (Waiting delayMs), Sleep delayMs])
                     else [])
         in case attempt_outcome (fetch attempt) of
              Found text \<Rightarrow> (Some text, request @ [Log ''info'' (TranscriptFound (length text))])
            | NotReady \<Rightarrow>
                (let (result, effects) = pollLoop fetch uuid cfg (attempt + 1)
                 in (result, request @ [Log ''info'' TranscriptNotReady] @ wait @ effects))
            | Caught err \<Rightarrow>
                (let (result, effects) = pollLoop fetch uuid cfg (attempt + 1)
                 in (result,
                     request
                     @ [if response_status err = Some 404 then Log ''warn'' EventNotFound
                        else Log ''error'' (CalendlyApiError (response_status err) (message err))]
                     @ wait @ effects)))
      else (None, []))"
  by pat_completeness auto
termination
  by (relation "measure (\<lambda>(fetch, uuid, cfg, attempt). maxAttempts (retry cfg) + 1 - attempt)")
     auto

declare pollLoop.simps [simp del]

text \<open>
  \<^verbatim>\<open>pollForTranscript(eventUuid, config)\<close>: the returned transcript, \<^const>\<open>None\<close> for
  \<^verbatim>\<open>null\<close>, and the effects of the call.
\<close>

definition pollForTranscript ::
  "(nat \<Rightarrow> fetch_result) \<Rightarrow> string \<Rightarrow> config \<Rightarrow> string option \<times> effect list" where
  "pollForTranscript fetch uuid cfg = pollLoop fetch uuid cfg 1"

section \<open>Notions used in the statements\<close>

text \<open>The requests and waits of a call, in order, without the log lines.\<close>

definition requests_and_waits :: "effect list \<Rightarrow> effect list" where
  "requests_and_waits effects =
     filter (\<lambda>e. case e of Log level line \<Rightarrow> False | _ \<Rightarrow> True) effects"

definition fetch_calls :: "effect list \<Rightarrow> string list" where
  "fetch_calls effects = concat (map (\<lambda>e. case e of HttpGet u \<Rightarrow> [u] | _ \<Rightarrow> []) effects)"

definition waits :: "effect list \<Rightarrow> int list" where
  "waits effects = concat (map (\<lambda>e. case e of Sleep d \<Rightarrow> [d] | _ \<Rightarrow> []) effects)"

text \<open>
  The request and the wait of the attempt \<open>i\<close> when it fails: one request, followed by
  a wait of \<open>baseDelayMs * 2 ^ (i - 1)\<close> unless the attempt is the last one.
\<close>

definition failed_attempt :: "string \<Rightarrow> config \<Rightarrow> nat \<Rightarrow> effect list" where
  "failed_attempt uuid cfg i =
     HttpGet (''https://api.calendly.com/scheduled_events/'' @ uuid)
     # (if i < maxAttempts (retry cfg) then [Sleep (baseDelayMs (retry cfg) * 2 ^ (i - 1))]
        else [])"

text \<open>
  A stored booking qualifies for a candidate when an iteration of the loop of
  \<^verbatim>\<open>findMatch\<close> returns it: the URL rule or the time rule holds, and the emails align.
\<close>

definition qualifies ::
  "(string \<Rightarrow> url option) \<Rightarrow> (string \<Rightarrow> int option) \<Rightarrow> string option \<Rightarrow> string option
   \<Rightarrow> string option \<Rightarrow> string option \<Rightarrow> stored_booking \<Rightarrow> bool" where
  "qualifies parseUrl getTime meetingUrl' guestEmail' hostEmail' startTime' rec =
     ((urlMatch parseUrl meetingUrl' rec \<or> timeMatch getTime startTime' rec)
      \<and> emailsAlign rec guestEmail' hostEmail')"


text \<open>A string that \<^const>\<open>toLowerCase\<close> leaves as it is.\<close>

definition lowered :: "string \<Rightarrow> bool" where
  "lowered s = (\<forall>c \<in> set s. toLowerCase_unit c = c)"

text \<open>
  What the three rewriting steps of \<^const>\<open>normalizeLinkedInUrl\<close> establish: no upper-case
  letter, no question mark, no white space in front and no slash at the end.
\<close>

definition canon :: "string \<Rightarrow> bool" where
  "canon q =
     (lowered q \<and> CHR ''?'' \<notin> set q
      \<and> (q \<noteq> [] \<longrightarrow> \<not> isWhiteSpace (hd q) \<and> last q \<noteq> CHR ''/''))"

text \<open>
  The invariant of the pending-lead store: a key is a non-empty result of
  \<^const>\<open>normalizeLinkedInUrl\<close>, and the stored lead carries its key.
\<close>

definition lead_store_inv :: "lead_store \<Rightarrow> bool" where
  "lead_store_inv pendingLeads =
     (\<forall>key l. pendingLeads key = Some l \<longrightarrow>
        key \<noteq> [] \<and> linkedinUrl l = Some key \<and> (\<exists>x. normalizeLinkedInUrl x = Some key))"

subsection \<open>Concrete inputs\<close>

definition booking_E1 :: booking where
  "booking_E1 =
     \<lparr>eventUuid = ''E1'', meetingUrl = Some ''https://zoom.us/j/123?pwd=abc'',
      startTime = Some ''2024-01-15T10:00:00Z'', endTime = None,
      guestEmail = Some ''a@x.com'', guestName = None, hostEmail = None\<rparr>"

definition booking_E0 :: booking where
  "booking_E0 =
     \<lparr>eventUuid = ''E0'', meetingUrl = None,
      startTime = Some ''2024-01-15T10:10:00Z'', endTime = None,
      guestEmail = Some ''a@x.com'', guestName = None, hostEmail = None\<rparr>"

definition booking_E2 :: booking where
  "booking_E2 =
     \<lparr>eventUuid = ''E2'', meetingUrl = Some ''https://zoom.us/j/123?pwd=abc#lobby'',
      startTime = None, endTime = None,
      guestEmail = Some ''a@x.com'', guestName = None, hostEmail = None\<rparr>"

definition booking_E3 :: booking where
  "booking_E3 =
     \<lparr>eventUuid = ''E3'', meetingUrl = Some ''zoom.us/j/123#lobby'',
      startTime = None, endTime = None,
      guestEmail = Some ''a@x.com'', guestName = None, hostEmail = None\<rparr>"

definition stored ::"int \<Rightarrow> booking \<Rightarrow> stored_booking" where
  "stored now recd = booking.extend recd (stored_booking.fields now)"

definition lead_x :: "string \<Rightarrow> lead" where
  "lead_x url =
     \<lparr>linkedinUrl = Some url, name = ''John Doe'', firstName = ''John'', lastName = ''Doe'',
      company = ''Acme Corp'', title = ''VP of Engineering'', conversation = ''Hi John'',
      taggedAt = ''2024-01-15T10:00:00.000Z'', tag = ''interested''\<rparr>"

text \<open>
  A remote that is never ready: not found, a server error, a response without a body, a
  transcript of ten code units, and an empty resource.
\<close>

definition never_ready :: "nat \<Rightarrow> fetch_result" where
  "never_ready i =
     (if i = 1 then Inl \<lparr>response_status = Some 404, message = ''Request failed with status code 404''\<rparr>
      else if i = 2 then Inl \<lparr>response_status = Some 500, message = ''Request failed with status code 500''\<rparr>
      else if i = 3 then Inr None
      else if i = 4 then
        Inr (Some \<lparr>meeting_notes = None, transcript = Some ''too short.'', transcription = None,
                   resource = None\<rparr>)
      else
        Inr (Some \<lparr>meeting_notes = None, transcript = None, transcription = None,
                   resource = Some \<lparr>meeting_notes =
                                       Some \<lparr>notes_transcript = Some [], notes_transcription = None,
                                             notes_summary = None\<rparr>,
                                     transcript = None, transcription = None\<rparr>\<rparr>))"

section \<open>Properties of the normalizer\<close>

lemma not_upper_lower: "\<not> isUpperCase (toLowerCase_unit c)"
  by (cases c) (simp add: isUpperCase_def toLowerCase_unit_def Let_def)

lemma ws_lower: "isWhiteSpace (toLowerCase_unit c) = isWhiteSpace c"
  by (cases c) (simp add: isUpperCase_def toLowerCase_unit_def isWhiteSpace_def Let_def)

lemma lower_unit_idem: "toLowerCase_unit (toLowerCase_unit c) = toLowerCase_unit c"
  using not_upper_lower [of c] by (simp add: toLowerCase_unit_def [of "toLowerCase_unit c"])

lemma lowered_toLowerCase: "lowered (toLowerCase s)"
  by (simp add: lowered_def toLowerCase_def lower_unit_idem)

lemma toLowerCase_lowered: "lowered s \<Longrightarrow> toLowerCase s = s"
  by (simp add: lowered_def toLowerCase_def map_idI)

lemma lowered_subset: "lowered s \<Longrightarrow> set t \<subseteq> set s \<Longrightarrow> lowered t"
  by (auto simp: lowered_def)

lemma set_rdr: "set (rev (dropWhile P (rev s))) \<subseteq> set s"
  by (auto dest: set_dropWhileD)

lemma set_trim: "set (trim s) \<subseteq> set s"
  unfolding trim_def using set_rdr [of isWhiteSpace "dropWhile isWhiteSpace s"] by (auto dest: set_dropWhileD)

lemma set_split: "set (split_query_0 s) \<subseteq> set s"
  unfolding split_query_0_def using set_takeWhileD by fastforce

lemma set_strip: "set (strip_trailing_slashes s) \<subseteq> set s"
  unfolding strip_trailing_slashes_def by (rule set_rdr)

lemma no_query_split: "CHR ''?'' \<notin> set (split_query_0 s)"
  unfolding split_query_0_def using set_takeWhileD by fastforce

lemma rev_dropWhile_rev_id: "s \<noteq> [] \<Longrightarrow> \<not> P (last s) \<Longrightarrow> rev (dropWhile P (rev s)) = s"
  by (cases s rule: rev_cases) auto

lemma rev_dropWhile_rev_last: "rev (dropWhile P (rev s)) \<noteq> [] \<Longrightarrow> \<not> P (last (rev (dropWhile P (rev s))))"
  by (metis hd_dropWhile last_rev rev_is_Nil_conv rev_rev_ident)

lemma strip_last: "strip_trailing_slashes s \<noteq> [] \<Longrightarrow> last (strip_trailing_slashes s) \<noteq> CHR ''/''"
  unfolding strip_trailing_slashes_def using rev_dropWhile_rev_last [of "\<lambda>c. c = CHR ''/''" s] by simp

lemma strip_id: "s \<noteq> [] \<Longrightarrow> last s \<noteq> CHR ''/'' \<Longrightarrow> strip_trailing_slashes s = s"
  unfolding strip_trailing_slashes_def by (rule rev_dropWhile_rev_id)

lemma split_id: "CHR ''?'' \<notin> set s \<Longrightarrow> split_query_0 s = s"
  unfolding split_query_0_def by (auto simp: takeWhile_eq_all_conv)

lemma trim_id: "s \<noteq> [] \<Longrightarrow> \<not> isWhiteSpace (hd s) \<Longrightarrow> \<not> isWhiteSpace (last s) \<Longrightarrow> trim s = s"
proof -
  assume a: "s \<noteq> []" "\<not> isWhiteSpace (hd s)" "\<not> isWhiteSpace (last s)"
  have "dropWhile isWhiteSpace s = s" using a(1,2) by (cases s) auto
  then show ?thesis unfolding trim_def using a(1,3) by (simp add: rev_dropWhile_rev_id)
qed

lemma match_props:
  "linkedin_match s = Some h \<Longrightarrow> h \<noteq> [] \<and> CHR ''/'' \<notin> set h \<and> set h \<subseteq> set s"
proof (induction s)
  case Nil then show ?case by simp
next
  case (Cons c cs)
  show ?case
  proof (cases "take 16 (c # cs) = ''linkedin.com/in/'' \<and> drop 16 (c # cs) \<noteq> [] \<and> hd (drop 16 (c # cs)) \<noteq> CHR ''/''")
    case True
    then have h: "h = takeWhile (\<lambda>x. x \<noteq> CHR ''/'') (drop 16 (c # cs))"
      using Cons.prems by (simp add: Let_def)
    have "h \<noteq> []" using True h by (cases "drop 16 (c # cs)") auto
    moreover have "CHR ''/'' \<notin> set h" using h set_takeWhileD by fastforce
    moreover have "set h \<subseteq> set (c # cs)"
      using h set_takeWhileD [of _ "\<lambda>x. x \<noteq> CHR ''/''" "drop 16 (c # cs)"] set_drop_subset [of 16 "c # cs"]
      by blast
    ultimately show ?thesis by simp
  next
    case False
    then have "linkedin_match cs = Some h" using Cons.prems by (auto simp: Let_def)
    then show ?thesis using Cons.IH by auto
  qed
qed

lemma match_canonical:
  assumes "h \<noteq> []" "CHR ''/'' \<notin> set h"
  shows "linkedin_match (''https://www.linkedin.com/in/'' @ h) = Some h"
proof -
  have "hd h \<noteq> CHR ''/''" using assms by (cases h) auto
  moreover have "takeWhile (\<lambda>x. x \<noteq> CHR ''/'') h = h"
    using assms by (auto simp: takeWhile_eq_all_conv)
  ultimately show ?thesis using assms by (simp add: Let_def)
qed

lemma hd_trim: "trim s \<noteq> [] \<Longrightarrow> \<not> isWhiteSpace (hd (trim s))"
proof -
  assume a: "trim s \<noteq> []"
  let ?d = "dropWhile isWhiteSpace s"
  have d: "?d \<noteq> []" using a by (auto simp: trim_def dest: set_dropWhileD)
  then have nd: "\<not> isWhiteSpace (hd ?d)" by (rule hd_dropWhile)
  obtain c cs where dc: "?d = c # cs" using d by (cases ?d) auto
  have "trim s = c # rev (dropWhile isWhiteSpace (rev cs))"
    using nd dc by (simp add: trim_def dropWhile_append3 dropWhile_append)
  then show ?thesis using nd dc by simp
qed

lemma hd_takeWhile: "takeWhile P s \<noteq> [] \<Longrightarrow> hd (takeWhile P s) = hd s"
  by (cases s) (auto split: if_splits)

lemma hd_rev_dropWhile_rev: "rev (dropWhile P (rev s)) \<noteq> [] \<Longrightarrow> hd (rev (dropWhile P (rev s))) = hd s"
proof (induction s rule: rev_induct)
  case Nil then show ?case by simp
next
  case (snoc x xs)
  then show ?case by (cases "P x") (auto simp: hd_append)
qed

lemma canon_steps: "canon (strip_trailing_slashes (split_query_0 (trim (toLowerCase s))))"
proof -
  let ?l = "trim (toLowerCase s)" let ?p = "split_query_0 ?l" let ?q = "strip_trailing_slashes ?p"
  have "set ?q \<subseteq> set (toLowerCase s)" using set_strip set_split set_trim by fast
  then have 1: "lowered ?q" using lowered_toLowerCase lowered_subset by blast
  have 2: "CHR ''?'' \<notin> set ?q" using no_query_split set_strip by fast
  have 3: "\<not> isWhiteSpace (hd ?q)" if "?q \<noteq> []"
  proof -
    have p: "?p \<noteq> []" using that by (auto simp: strip_trailing_slashes_def)
    then have l: "?l \<noteq> []" by (auto simp: split_query_0_def)
    have "hd ?q = hd ?p" using that unfolding strip_trailing_slashes_def by (rule hd_rev_dropWhile_rev)
    also have "\<dots> = hd ?l" using p unfolding split_query_0_def by (rule hd_takeWhile)
    finally show ?thesis using hd_trim [OF l] by simp
  qed
  show ?thesis unfolding canon_def using 1 2 3 strip_last by blast
qed

lemma normalize_Some:
  "s \<noteq> [] \<Longrightarrow> normalizeLinkedInUrl (Some s) =
     (case linkedin_match (strip_trailing_slashes (split_query_0 (trim (toLowerCase s)))) of
        Some h \<Rightarrow> Some (''https://www.linkedin.com/in/'' @ h)
      | None \<Rightarrow> Some (strip_trailing_slashes (split_query_0 (trim (toLowerCase s)))))"
  by (simp add: normalizeLinkedInUrl_def Let_def)

lemma steps_id:
  assumes "canon q" "q \<noteq> []" "\<not> isWhiteSpace (last q)"
  shows "strip_trailing_slashes (split_query_0 (trim (toLowerCase q))) = q"
  using assms by (simp add: canon_def toLowerCase_lowered trim_id split_id strip_id)

lemma canon_out:
  assumes "canon q" "linkedin_match q = Some h"
  shows "canon (''https://www.linkedin.com/in/'' @ h)"
proof -
  have h: "h \<noteq> []" "CHR ''/'' \<notin> set h" "set h \<subseteq> set q" using match_props [OF assms(2)] by auto
  have "lowered h" using assms(1) h(3) lowered_subset by (auto simp: canon_def)
  then have "lowered (''https://www.linkedin.com/in/'' @ h)"
    by (simp add: lowered_def toLowerCase_unit_def isUpperCase_def)
  moreover have "CHR ''?'' \<notin> set (''https://www.linkedin.com/in/'' @ h)"
    using assms(1) h(3) by (auto simp: canon_def)
  moreover have "last (''https://www.linkedin.com/in/'' @ h) \<noteq> CHR ''/''"
    using h(1,2) last_in_set [of h] by (cases "last h = CHR ''/''") auto
  ultimately show ?thesis by (simp add: canon_def isWhiteSpace_def)
qed

lemma normalize_fixed:
  assumes "normalizeLinkedInUrl x = Some r" "r \<noteq> []" "\<not> isWhiteSpace (last r)"
  shows "normalizeLinkedInUrl (Some r) = Some r"
proof -
  obtain s where x: "x = Some s" "s \<noteq> []"
    using assms(1) by (cases x) (auto simp: normalizeLinkedInUrl_def split: if_splits)
  let ?q = "strip_trailing_slashes (split_query_0 (trim (toLowerCase s)))"
  have cq: "canon ?q" by (rule canon_steps)
  show ?thesis
  proof (cases "linkedin_match ?q")
    case None
    then have r: "r = ?q" using assms(1) x by (simp add: normalize_Some)
    then have "strip_trailing_slashes (split_query_0 (trim (toLowerCase r))) = r"
      using cq assms(2,3) steps_id by simp
    then show ?thesis using None r assms(2) by (simp add: normalize_Some)
  next
    case (Some h)
    then have r: "r = ''https://www.linkedin.com/in/'' @ h" using assms(1) x by (simp add: normalize_Some)
    have "canon r" unfolding r using cq Some by (rule canon_out)
    then have st: "strip_trailing_slashes (split_query_0 (trim (toLowerCase r))) = r"
      using assms(2,3) steps_id by simp
    have "linkedin_match r = Some h" unfolding r using match_props [OF Some] match_canonical by blast
    then show ?thesis using st r assms(2) by (simp add: normalize_Some)
  qed
qed

section \<open>Properties of the booking store\<close>

lemma cleanup_filter:
  "cleanup now bookings = filter (\<lambda>(key, rec). now - createdAt rec \<le> TTL_MS) bookings"
  by (induction bookings) auto

lemma set_cleanup:
  "set (cleanup now bookings) = {(key, rec) \<in> set bookings. now - createdAt rec \<le> TTL_MS}"
  by (auto simp: cleanup_filter)

lemma loop_Cons:
  "findMatch_loop U D mu ge he st ((key, rec) # entries) =
     (if qualifies U D mu ge he st rec then Some rec
      else findMatch_loop U D mu ge he st entries)"
  by (auto simp: qualifies_def)

lemma loop_first:
  assumes "\<forall>(k', r') \<in> set pre. \<not> qualifies U D mu ge he st r'"
    and "qualifies U D mu ge he st rec"
  shows "findMatch_loop U D mu ge he st (pre @ (key, rec) # post) = Some rec"
  using assms by (induction pre) (auto simp: loop_Cons simp del: findMatch_loop.simps(2))

lemma loop_Some:
  "findMatch_loop U D mu ge he st entries = Some rec
   \<Longrightarrow> (\<exists>key. (key, rec) \<in> set entries) \<and> qualifies U D mu ge he st rec"
  by (induction entries) (auto simp: loop_Cons simp del: findMatch_loop.simps(2) split: if_splits)

lemma loop_None:
  "(findMatch_loop U D mu ge he st entries = None)
   = (\<forall>(key, rec) \<in> set entries. \<not> qualifies U D mu ge he st rec)"
  by (induction entries) (auto simp: loop_Cons simp del: findMatch_loop.simps(2) split: if_splits)

lemma qualifies_truthy:
  "qualifies U D mu ge he st rec \<Longrightarrow> truthy mu \<or> truthy st"
  by (auto simp: qualifies_def urlMatch_def timeMatch_def truthy_def split: option.splits)

lemma findMatch_store: "snd (findMatch U D now mu ge he st bookings) = cleanup now bookings"
  by (simp add: findMatch_def Let_def)

lemma findMatch_result:
  assumes "fst (findMatch U D now mu ge he st bookings) = Some rec"
  shows "(\<exists>key. (key, rec) \<in> set bookings) \<and> now - createdAt rec \<le> TTL_MS
         \<and> qualifies U D mu ge he st rec"
proof -
  have "findMatch_loop U D mu ge he st (cleanup now bookings) = Some rec"
    using assms by (simp add: findMatch_def Let_def split: if_splits)
  from loop_Some [OF this] show ?thesis by (auto simp: set_cleanup)
qed

lemma findMatch_first:
  assumes "bookings = pre @ (key, rec) # post"
    and "now - createdAt rec \<le> TTL_MS"
    and "qualifies U D mu ge he st rec"
    and "\<forall>(k', r') \<in> set pre. now - createdAt r' \<le> TTL_MS \<longrightarrow> \<not> qualifies U D mu ge he st r'"
  shows "fst (findMatch U D now mu ge he st bookings) = Some rec"
proof -
  let ?live = "\<lambda>(key, rec). now - createdAt rec \<le> TTL_MS"
  have c: "cleanup now bookings = filter ?live pre @ (key, rec) # filter ?live post"
    using assms(1,2) by (simp add: cleanup_filter)
  have "\<forall>(k', r') \<in> set (filter ?live pre). \<not> qualifies U D mu ge he st r'"
    using assms(4) by auto
  then have "findMatch_loop U D mu ge he st (cleanup now bookings) = Some rec"
    unfolding c using assms(3) by (rule loop_first)
  then show ?thesis using qualifies_truthy [OF assms(3)] by (auto simp: findMatch_def Let_def)
qed

lemma findMatch_some:
  assumes "(key, rec) \<in> set bookings"
    and "now - createdAt rec \<le> TTL_MS"
    and "qualifies U D mu ge he st rec"
  shows "fst (findMatch U D now mu ge he st bookings) \<noteq> None"
proof -
  have "(key, rec) \<in> set (cleanup now bookings)" using assms(1,2) by (simp add: set_cleanup)
  then have "findMatch_loop U D mu ge he st (cleanup now bookings) \<noteq> None"
    using assms(3) by (auto simp: loop_None)
  then show ?thesis using qualifies_truthy [OF assms(3)] by (auto simp: findMatch_def Let_def)
qed

lemma findMatch_only:
  assumes "(key, rec) \<in> set bookings"
    and "now - createdAt rec \<le> TTL_MS"
    and "qualifies U D mu ge he st rec"
    and "\<forall>(k', r') \<in> set bookings. now - createdAt r' \<le> TTL_MS \<and> qualifies U D mu ge he st r' \<longrightarrow> r' = rec"
  shows "fst (findMatch U D now mu ge he st bookings) = Some rec"
proof -
  obtain r where r: "fst (findMatch U D now mu ge he st bookings) = Some r"
    using findMatch_some [OF assms(1-3)] by auto
  from findMatch_result [OF r] have "r = rec" using assms(4) by auto
  then show ?thesis using r by simp
qed

lemma set_Map_set: "(k, v) \<in> set (Map_set k v entries)"
  by (induction entries) auto

lemma set_Map_set_other:
  "(k', v') \<in> set (Map_set k v entries) \<Longrightarrow> (k', v') = (k, v) \<or> (k', v') \<in> set entries"
  by (induction entries) (auto split: if_splits)

lemma Map_set_keeps:
  "(k', v') \<in> set entries \<Longrightarrow> k' \<noteq> k \<Longrightarrow> (k', v') \<in> set (Map_set k v entries)"
  by (induction entries) auto

lemma createdAt_extend [simp]:
  "createdAt (booking.extend recd (stored_booking.fields now)) = now"
  by (simp add: booking.defs stored_booking.defs)

lemma addBooking_member:
  "(eventUuid recd, booking.extend recd (stored_booking.fields now)) \<in> set (addBooking now recd bookings)"
  using TTL_MS_def by (simp add: addBooking_def set_cleanup set_Map_set)

section \<open>Properties of the polling loop\<close>

lemma raw_append: "requests_and_waits (xs @ ys) = requests_and_waits xs @ requests_and_waits ys"
  by (simp add: requests_and_waits_def)

lemma pollLoop_done:
  "\<not> attempt \<le> maxAttempts (retry cfg) \<Longrightarrow> pollLoop fetch uuid cfg attempt = (None, [])"
  by (subst pollLoop.simps) simp

lemma pollLoop_failed:
  assumes "attempt \<le> maxAttempts (retry cfg)" "\<forall>t. attempt_outcome (fetch attempt) \<noteq> Found t"
  shows "fst (pollLoop fetch uuid cfg attempt) = fst (pollLoop fetch uuid cfg (attempt + 1))"
    and "requests_and_waits (snd (pollLoop fetch uuid cfg attempt))
         = failed_attempt uuid cfg attempt
           @ requests_and_waits (snd (pollLoop fetch uuid cfg (attempt + 1)))"
  using assms
  by (subst pollLoop.simps;
      cases "attempt_outcome (fetch attempt)";
      simp add: Let_def split_beta requests_and_waits_def failed_attempt_def)+

lemma pollLoop_exhausted:
  assumes "\<forall>i. attempt \<le> i \<and> i \<le> maxAttempts (retry cfg) \<longrightarrow> (\<forall>t. attempt_outcome (fetch i) \<noteq> Found t)"
  shows "fst (pollLoop fetch uuid cfg attempt) = None
         \<and> requests_and_waits (snd (pollLoop fetch uuid cfg attempt))
             = concat (map (failed_attempt uuid cfg) [attempt ..< Suc (maxAttempts (retry cfg))])"
  using assms
proof (induction "Suc (maxAttempts (retry cfg)) - attempt" arbitrary: attempt)
  case 0
  then have "\<not> attempt \<le> maxAttempts (retry cfg)" by simp
  then show ?case by (simp add: pollLoop_done requests_and_waits_def)
next
  case (Suc n)
  then have le: "attempt \<le> maxAttempts (retry cfg)" by simp
  have nf: "\<forall>t. attempt_outcome (fetch attempt) \<noteq> Found t" using Suc.prems le by simp
  have n: "n = Suc (maxAttempts (retry cfg)) - (attempt + 1)" using Suc.hyps(2) by simp
  have rest: "\<forall>i. attempt + 1 \<le> i \<and> i \<le> maxAttempts (retry cfg) \<longrightarrow> (\<forall>t. attempt_outcome (fetch i) \<noteq> Found t)"
    using Suc.prems by simp
  have up: "[attempt ..< Suc (maxAttempts (retry cfg))] = attempt # [attempt + 1 ..< Suc (maxAttempts (retry cfg))]"
    using le by (simp add: upt_conv_Cons del: upt_Suc)
  show ?case
    using Suc.hyps(1) [OF n rest]
      pollLoop_failed [of attempt cfg fetch uuid, OF le nf]
    unfolding up by simp
qed

lemma concat_if_all:
  "\<forall>x \<in> set xs. P x \<Longrightarrow> concat (map (\<lambda>i. if P i then [g i] else []) xs) = map g xs"
  by (induction xs) auto

lemma fetch_calls_raw: "fetch_calls (requests_and_waits effects) = fetch_calls effects"
  by (induction effects) (auto simp: fetch_calls_def requests_and_waits_def split: effect.splits)

lemma waits_raw: "waits (requests_and_waits effects) = waits effects"
  by (induction effects) (auto simp: waits_def requests_and_waits_def split: effect.splits)

lemma fetch_calls_failed:
  "fetch_calls (concat (map (failed_attempt uuid cfg) is))
   = replicate (length is) (''https://api.calendly.com/scheduled_events/'' @ uuid)"
  by (induction "is") (auto simp: fetch_calls_def failed_attempt_def)

lemma waits_failed:
  "waits (concat (map (failed_attempt uuid cfg) is))
   = concat (map (\<lambda>i. if i < maxAttempts (retry cfg)
                        then [baseDelayMs (retry cfg) * 2 ^ (i - 1)] else []) is)"
  by (induction "is") (auto simp: waits_def failed_attempt_def)

lemma waits_failed_all:
  "waits (concat (map (failed_attempt uuid cfg) [1 ..< Suc (maxAttempts (retry cfg))]))
   = map (\<lambda>i. baseDelayMs (retry cfg) * 2 ^ (i - 1)) [1 ..< maxAttempts (retry cfg)]"
proof -
  let ?m = "maxAttempts (retry cfg)"
  let ?F = "\<lambda>i. if i < ?m then [baseDelayMs (retry cfg) * 2 ^ (i - 1)] else []"
  have "concat (map ?F [1 ..< Suc ?m]) = concat (map ?F [1 ..< ?m])"
    by simp
  also have "\<dots> = map (\<lambda>i. baseDelayMs (retry cfg) * 2 ^ (i - 1)) [1 ..< ?m]"
    by (rule concat_if_all) simp
  finally show ?thesis unfolding waits_failed .
qed

section \<open>Further properties of the normalizer\<close>

lemmas string_eval = truthy_def toLowerCase_def toLowerCase_unit_def isUpperCase_def
  isWhiteSpace_def

lemmas lead_eval = normalizeLinkedInUrl_def trim_def split_query_0_def strip_trailing_slashes_def
  addPendingLead_def getPendingLead_def hasPendingLead_def lead_x_def lead.defs pending_lead.defs

lemma normalize_None [simp]: "normalizeLinkedInUrl None = None"
  by (simp add: normalizeLinkedInUrl_def)

lemma normalize_Nil [simp]: "normalizeLinkedInUrl (Some []) = None"
  by (simp add: normalizeLinkedInUrl_def)

lemma normalize_Some_input:
  "normalizeLinkedInUrl x = Some r \<Longrightarrow> \<exists>s. x = Some s \<and> s \<noteq> []"
  by (cases x) (auto simp: normalizeLinkedInUrl_def split: if_splits)

lemma normalize_canon:
  assumes "normalizeLinkedInUrl x = Some r"
  shows "canon r"
proof -
  obtain s where x: "x = Some s" "s \<noteq> []" using normalize_Some_input [OF assms] by auto
  let ?q = "strip_trailing_slashes (split_query_0 (trim (toLowerCase s)))"
  show ?thesis
  proof (cases "linkedin_match ?q")
    case None
    then have "r = ?q" using assms x by (simp add: normalize_Some)
    then show ?thesis using canon_steps by simp
  next
    case (Some h)
    then have "r = ''https://www.linkedin.com/in/'' @ h" using assms x by (simp add: normalize_Some)
    then show ?thesis using canon_out [OF canon_steps Some] by simp
  qed
qed

lemma normalize_set:
  assumes "normalizeLinkedInUrl (Some s) = Some r" "r \<noteq> []"
  shows "last r \<in> set (toLowerCase s)"
proof -
  have s: "s \<noteq> []" using assms(1) by (cases s) auto
  let ?q = "strip_trailing_slashes (split_query_0 (trim (toLowerCase s)))"
  have sub: "set ?q \<subseteq> set (toLowerCase s)" using set_strip set_split set_trim by fast
  show ?thesis
  proof (cases "linkedin_match ?q")
    case None
    then have "r = ?q" using assms s by (simp add: normalize_Some)
    then show ?thesis using sub assms(2) last_in_set by blast
  next
    case (Some h)
    then have r: "r = ''https://www.linkedin.com/in/'' @ h" using assms s by (simp add: normalize_Some)
    have h: "h \<noteq> []" "set h \<subseteq> set ?q" using match_props [OF Some] by auto
    have "last r = last h" using r h(1) by simp
    then show ?thesis using h sub last_in_set by fastforce
  qed
qed

lemma normalize_no_white_space:
  assumes "\<forall>c \<in> set s. \<not> isWhiteSpace c" "normalizeLinkedInUrl (Some s) = Some r" "r \<noteq> []"
  shows "\<not> isWhiteSpace (last r)"
proof -
  have "last r \<in> set (toLowerCase s)" using assms(2,3) by (rule normalize_set)
  then obtain c where "c \<in> set s" "last r = toLowerCase_unit c" by (auto simp: toLowerCase_def)
  then show ?thesis using assms(1) ws_lower by simp
qed

lemma match_extend:
  "linkedin_match a = Some h \<Longrightarrow> linkedin_match (a @ b) \<noteq> None"
proof (induction a)
  case Nil then show ?case by simp
next
  case (Cons c cs)
  show ?case
  proof (cases "take 16 (c # cs) = ''linkedin.com/in/'' \<and> drop 16 (c # cs) \<noteq> [] \<and> hd (drop 16 (c # cs)) \<noteq> CHR ''/''")
    case True
    then have l: "length (c # cs) > 16" by (cases "length (c # cs) > 16") auto
    then have "take 16 ((c # cs) @ b) = ''linkedin.com/in/''"
      "drop 16 ((c # cs) @ b) = drop 16 (c # cs) @ b"
      using True by auto
    then show ?thesis using True by (simp add: Let_def)
  next
    case False
    then have "linkedin_match cs = Some h" using Cons.prems by (auto simp: Let_def)
    then have "linkedin_match (cs @ b) \<noteq> None" by (rule Cons.IH)
    then show ?thesis by (auto simp: Let_def)
  qed
qed

lemma rdr_prefix: "\<exists>t. s = rev (dropWhile P (rev s)) @ t"
  by (metis append_take_drop_id rev_append rev_rev_ident takeWhile_dropWhile_id)

lemma rdr_shorter:
  assumes "s \<noteq> []" "P (last s)"
  shows "length (rev (dropWhile P (rev s))) < length s"
proof -
  obtain ys y where s: "s = ys @ [y]" using assms(1) by (cases s rule: rev_cases) auto
  then have "dropWhile P (rev s) = dropWhile P (rev ys)" using assms(2) by simp
  moreover have "length (dropWhile P (rev ys)) \<le> length (rev ys)" by (rule length_dropWhile_le)
  ultimately show ?thesis using s by simp
qed

lemma trim_canon:
  assumes "canon r" "r \<noteq> []"
  shows "trim r = rev (dropWhile isWhiteSpace (rev r))"
proof -
  have "dropWhile isWhiteSpace r = r" using assms by (cases r) (auto simp: canon_def)
  then show ?thesis by (simp add: trim_def)
qed

lemma steps_prefix:
  assumes "canon r" "r \<noteq> []"
  shows "\<exists>t. r = strip_trailing_slashes (split_query_0 (trim (toLowerCase r))) @ t"
proof -
  have l: "toLowerCase r = r" using assms(1) by (simp add: canon_def toLowerCase_lowered)
  obtain t1 where t1: "r = trim r @ t1" using trim_canon [OF assms] rdr_prefix by metis
  have "CHR ''?'' \<notin> set (trim r)" using assms(1) set_trim by (auto simp: canon_def)
  then have sp: "split_query_0 (trim r) = trim r" by (rule split_id)
  obtain t2 where "trim r = strip_trailing_slashes (trim r) @ t2"
    unfolding strip_trailing_slashes_def using rdr_prefix by blast
  then have "r = strip_trailing_slashes (trim r) @ (t2 @ t1)" using t1 by (metis append_assoc)
  then show ?thesis unfolding l sp by blast
qed

lemma steps_shorter:
  assumes "canon r" "r \<noteq> []" "isWhiteSpace (last r)"
  shows "length (strip_trailing_slashes (split_query_0 (trim (toLowerCase r)))) < length r"
proof -
  have l: "toLowerCase r = r" using assms(1) by (simp add: canon_def toLowerCase_lowered)
  have "length (trim r) < length r"
    unfolding trim_canon [OF assms(1,2)] using assms(2,3) by (rule rdr_shorter)
  moreover have "length (split_query_0 (trim r)) \<le> length (trim r)"
    unfolding split_query_0_def by (rule length_takeWhile_le)
  moreover have "length (strip_trailing_slashes (split_query_0 (trim r))) \<le> length (split_query_0 (trim r))"
    unfolding strip_trailing_slashes_def
    using length_dropWhile_le [of "\<lambda>c. c = CHR ''/''" "rev (split_query_0 (trim r))"] by simp
  ultimately show ?thesis unfolding l by linarith
qed

lemma trim_append:
  assumes "p \<noteq> []" "\<not> isWhiteSpace (hd p)" "\<not> isWhiteSpace (last p)"
  shows "trim (p @ h) = p @ rev (dropWhile isWhiteSpace (rev h))"
proof -
  have 1: "dropWhile isWhiteSpace (p @ h) = p @ h" using assms(1,2) by (cases p) auto
  have 2: "dropWhile isWhiteSpace (rev p) = rev p"
    using assms(1,3) by (cases p rule: rev_cases) auto
  show ?thesis
  proof (cases "\<forall>c \<in> set (rev h). isWhiteSpace c")
    case True
    then have "dropWhile isWhiteSpace (rev h) = []" by simp
    moreover have "dropWhile isWhiteSpace (rev h @ rev p) = rev p"
      using True 2 by (simp add: dropWhile_append)
    ultimately show ?thesis unfolding trim_def 1 by simp
  next
    case False
    then have "dropWhile isWhiteSpace (rev h @ rev p) = dropWhile isWhiteSpace (rev h) @ rev p"
      by (auto simp: dropWhile_append)
    then show ?thesis unfolding trim_def 1 by simp
  qed
qed

lemma trim_handle:
  "trim (''https://www.linkedin.com/in/'' @ h)
   = ''https://www.linkedin.com/in/'' @ rev (dropWhile isWhiteSpace (rev h))"
  by (rule trim_append) (simp_all add: isWhiteSpace_def)

lemma normalize_fixed_only:
  assumes "normalizeLinkedInUrl x = Some r" "normalizeLinkedInUrl (Some r) = Some r"
  shows "r \<noteq> [] \<and> \<not> isWhiteSpace (last r)"
proof -
  have ne: "r \<noteq> []" using assms(2) by (cases r) auto
  have cr: "canon r" using assms(1) by (rule normalize_canon)
  let ?q' = "strip_trailing_slashes (split_query_0 (trim (toLowerCase r)))"
  have "\<not> isWhiteSpace (last r)"
  proof
    assume ws: "isWhiteSpace (last r)"
    have short: "length ?q' < length r" using cr ne ws by (rule steps_shorter)
    obtain s where x: "x = Some s" "s \<noteq> []" using normalize_Some_input [OF assms(1)] by auto
    let ?q = "strip_trailing_slashes (split_query_0 (trim (toLowerCase s)))"
    show False
    proof (cases "linkedin_match ?q")
      case None
      then have r: "r = ?q" using assms(1) x by (simp add: normalize_Some)
      obtain t where t: "r = ?q' @ t" using steps_prefix [OF cr ne] by blast
      have "linkedin_match ?q' = None"
      proof (cases "linkedin_match ?q'")
        case (Some h)
        then have "linkedin_match (?q' @ t) \<noteq> None" by (rule match_extend)
        then show ?thesis using None r t by simp
      qed simp
      then have "?q' = r" using assms(2) ne by (simp add: normalize_Some)
      then show False using short by simp
    next
      case (Some h)
      then have r: "r = ''https://www.linkedin.com/in/'' @ h" using assms(1) x by (simp add: normalize_Some)
      have h: "h \<noteq> []" "CHR ''/'' \<notin> set h" using match_props [OF Some] by auto
      have lr: "toLowerCase r = r" using cr by (simp add: canon_def toLowerCase_lowered)
      let ?h1 = "rev (dropWhile isWhiteSpace (rev h))"
      have tr: "trim r = ''https://www.linkedin.com/in/'' @ ?h1" unfolding r by (rule trim_handle)
      have wsh: "isWhiteSpace (last h)" using ws r h(1) by simp
      have h1s: "length ?h1 < length h" using h(1) wsh by (rule rdr_shorter)
      have "CHR ''?'' \<notin> set (trim r)" using cr set_trim by (auto simp: canon_def)
      then have sp: "split_query_0 (trim r) = trim r" by (rule split_id)
      have q': "?q' = strip_trailing_slashes (''https://www.linkedin.com/in/'' @ ?h1)"
        using lr sp tr by (simp del: append.simps)
      show False
      proof (cases "?h1 = []")
        case True
        have "?q' = strip_trailing_slashes (''https://www.linkedin.com/in/'' @ [])"
          unfolding q' True ..
        then have "?q' = ''https://www.linkedin.com/in''"
          by (simp add: strip_trailing_slashes_def)
        then have "normalizeLinkedInUrl (Some r) = Some ''https://www.linkedin.com/in''"
          using ne by (simp add: normalize_Some Let_def)
        then show False using assms(2) r by simp
      next
        case False
        have h1: "CHR ''/'' \<notin> set ?h1" using h(2) set_rdr by fast
        then have "last (''https://www.linkedin.com/in/'' @ ?h1) \<noteq> CHR ''/''"
          using False last_in_set [of ?h1] by (cases "last ?h1 = CHR ''/''") auto
        then have "?q' = ''https://www.linkedin.com/in/'' @ ?h1"
          unfolding q' by (intro strip_id) simp_all
        moreover have "linkedin_match (''https://www.linkedin.com/in/'' @ ?h1) = Some ?h1"
          using False h1 by (rule match_canonical)
        ultimately have "normalizeLinkedInUrl (Some r) = Some (''https://www.linkedin.com/in/'' @ ?h1)"
          using ne by (simp add: normalize_Some)
        then have "?h1 = h" using assms(2) r by simp
        then show False using h1s by simp
      qed
    qed
  qed
  then show ?thesis using ne by simp
qed

lemma normalize_fixed_iff:
  assumes "normalizeLinkedInUrl x = Some r"
  shows "(normalizeLinkedInUrl (Some r) = Some r) = (r \<noteq> [] \<and> \<not> isWhiteSpace (last r))"
  using normalize_fixed [OF assms] normalize_fixed_only [OF assms] by blast

section \<open>Properties of the URL constructor on plain web addresses\<close>













section \<open>Properties of normalizeUrl\<close>

lemma set_hash_empty_fragment: "set_hash_empty (u\<lparr>fragment := f\<rparr>) = set_hash_empty u"
  by (simp add: set_hash_empty_def split: url_path.splits)


lemma query_part_inj:
  "((case q of Some x \<Rightarrow> ''?'' @ x | None \<Rightarrow> []) = (case q' of Some x \<Rightarrow> ''?'' @ x | None \<Rightarrow> []))
   = (q = q')"
  by (cases q; cases q') auto

text \<open>
  Two URLs that differ at most in query and fragment have the same serialization after
  \<^verbatim>\<open>u.hash = ''\<close> exactly when their queries are the same.
\<close>

lemma href_query_eq:
  "(href (set_hash_empty u) = href (set_hash_empty (u\<lparr>query := q', fragment := f'\<rparr>)))
   = (q' = query u)"
proof (cases "path u")
  case (Segments segs)
  define X where "X = scheme u @ '':'' @
     (case host u of
        Some h \<Rightarrow>
          ''//'' @
          (if username u \<noteq> [] \<or> password u \<noteq> []
           then username u @ (if password u \<noteq> [] then '':'' @ password u else []) @ ''@''
           else []) @
          h @
          (case port u of Some p \<Rightarrow> '':'' @ decimal p | None \<Rightarrow> [])
      | None \<Rightarrow>
          (case path u of
             Segments (seg # seg' # segs) \<Rightarrow> (if seg = [] then ''/.'' else [])
           | _ \<Rightarrow> [])) @
     serialize_path (path u)"
  have a: "href (set_hash_empty u) = X @ (case query u of Some x \<Rightarrow> ''?'' @ x | None \<Rightarrow> [])"
    by (simp add: href_def set_hash_empty_def Segments X_def cong: option.case_cong)
  have b: "href (set_hash_empty (u\<lparr>query := q', fragment := f'\<rparr>))
             = X @ (case q' of Some x \<Rightarrow> ''?'' @ x | None \<Rightarrow> [])"
    by (simp add: href_def set_hash_empty_def Segments X_def cong: option.case_cong)
  show ?thesis
    unfolding a b using query_part_inj [of "query u" q'] by auto
next
  case (Opaque s)
  let ?strip = "rev (dropWhile (\<lambda>c. c = CHR '' '') (rev s))"
  have len: "length ?strip \<le> length s"
    using length_dropWhile_le [of "\<lambda>c. c = CHR '' ''" "rev s"] by simp
  show ?thesis
  proof (cases "query u")
    case None
    note qu = None
    show ?thesis
    proof (cases q')
      case None
      then show ?thesis
        using qu by (simp add: href_def set_hash_empty_def Opaque cong: option.case_cong)
    next
      case (Some x)
      have "?strip \<noteq> s @ ''?'' @ x"
      proof
        assume "?strip = s @ ''?'' @ x"
        then have "length ?strip = length (s @ ''?'' @ x)" by simp
        then show False using len by simp
      qed
      then show ?thesis
        using qu Some by (simp add: href_def set_hash_empty_def Opaque cong: option.case_cong)
    qed
  next
    case (Some x)
    note qu = Some
    show ?thesis
    proof (cases q')
      case None
      have "s @ ''?'' @ x \<noteq> ?strip"
      proof
        assume "s @ ''?'' @ x = ?strip"
        then have "length (s @ ''?'' @ x) = length ?strip" by simp
        then show False using len by simp
      qed
      then show ?thesis
        using qu None by (simp add: href_def set_hash_empty_def Opaque cong: option.case_cong)
    next
      case (Some x')
      then show ?thesis
        using qu by (auto simp: href_def set_hash_empty_def Opaque cong: option.case_cong)
    qed
  qed
qed

lemma normalizeUrl_query_eq:
  assumes "parseUrl a = Some u" and "parseUrl b = Some (u\<lparr>query := q', fragment := f'\<rparr>)"
  shows "(normalizeUrl parseUrl a = normalizeUrl parseUrl b) = (q' = query u)"
  using assms href_query_eq [where u = u and q' = q' and f' = f'] by (simp add: normalizeUrl_def)


section \<open>Evaluation and rules of the booking store\<close>

lemmas url_eval = normalizeUrl_def newURL_def href_def set_hash_empty_def after_first_def
  before_first_def strip_scheme_def host_ok_def isLowerAlpha_def isAlnum_def isPathUnit_def
  isQueryUnit_def

lemmas date_eval = Date_getTime_def digit_def daysInMonth_def daysFromEpoch_def isLeapYear_def

lemmas store_eval = addBooking_def findMatch_def urlMatch_def timeMatch_def emailsAlign_def
  toLowerCase_eq_def qualifies_def stored_def booking_E1_def booking_E0_def TTL_MS_def
  booking.defs stored_booking.defs

lemma stored_createdAt [simp]: "createdAt (stored now recd) = now"
  by (simp add: stored_def)

lemma addBooking_stored:
  "(eventUuid recd, stored now recd) \<in> set (addBooking now recd bookings)"
  unfolding stored_def by (rule addBooking_member)

lemma url_rule_qualifies:
  assumes "meetingUrl' = Some candUrl" "candUrl \<noteq> []"
    and "booking.meetingUrl rec = Some recUrl" "recUrl \<noteq> []"
    and "normalizeUrl parseUrl recUrl = normalizeUrl parseUrl candUrl"
    and "emailsAlign rec guestEmail' hostEmail'"
  shows "qualifies parseUrl getTime meetingUrl' guestEmail' hostEmail' startTime' rec"
  using assms by (simp add: qualifies_def urlMatch_def)

lemma time_rule_qualifies:
  assumes "startTime' = Some candStart" "candStart \<noteq> []"
    and "booking.startTime rec = Some recStart" "recStart \<noteq> []"
    and "getTime recStart = Some a" "getTime candStart = Some b" "\<bar>a - b\<bar> \<le> 15 * 60 * 1000"
    and "emailsAlign rec guestEmail' hostEmail'"
  shows "qualifies parseUrl getTime meetingUrl' guestEmail' hostEmail' startTime' rec"
  using assms by (simp add: qualifies_def timeMatch_def)

lemma emailsAlign_iff:
  "emailsAlign rec guestEmail' hostEmail' =
     ((\<exists>a b. booking.guestEmail rec = Some a \<and> guestEmail' = Some b \<and> a \<noteq> [] \<and> b \<noteq> []
             \<and> toLowerCase a = toLowerCase b)
      \<and> (\<forall>c d. booking.hostEmail rec = Some c \<and> hostEmail' = Some d \<and> c \<noteq> [] \<and> d \<noteq> []
             \<longrightarrow> toLowerCase c = toLowerCase d))"
  by (auto simp: emailsAlign_def toLowerCase_eq_def truthy_def Let_def split: option.splits)

section \<open>Rules of the pending-lead store\<close>

lemma getPendingLead_hit:
  assumes "pendingLeads key = Some l" "key \<noteq> []" "normalizeLinkedInUrl url = Some key"
  shows "getPendingLead url pendingLeads = (Some l, pendingLeads(key := None))"
  using assms by (simp add: getPendingLead_def)

lemma getPendingLead_miss:
  assumes "pendingLeads key = None" "normalizeLinkedInUrl url = Some key"
  shows "getPendingLead url pendingLeads = (None, pendingLeads)"
  using assms by (simp add: getPendingLead_def)

lemma addPendingLead_Some:
  assumes "fst (addPendingLead nowIso l pendingLeads) = Some key"
  shows "normalizeLinkedInUrl (linkedinUrl l) = Some key \<and> key \<noteq> []
    \<and> snd (addPendingLead nowIso l pendingLeads)
        = pendingLeads(key \<mapsto> lead.extend (l\<lparr>linkedinUrl := Some key\<rparr>) (pending_lead.fields nowIso))"
  using assms by (auto simp: addPendingLead_def split: option.splits if_splits)

lemma addPendingLead_None:
  assumes "fst (addPendingLead nowIso l pendingLeads) = None"
  shows "snd (addPendingLead nowIso l pendingLeads) = pendingLeads"
  using assms by (auto simp: addPendingLead_def split: option.splits if_splits)

lemma stamped:
  "addedAt (lead.extend (l\<lparr>linkedinUrl := Some key\<rparr>) (pending_lead.fields nowIso)) = nowIso"
  "linkedinUrl (lead.extend (l\<lparr>linkedinUrl := Some key\<rparr>) (pending_lead.fields nowIso)) = Some key"
  "lead.truncate (lead.extend (l\<lparr>linkedinUrl := Some key\<rparr>) (pending_lead.fields nowIso))
     = l\<lparr>linkedinUrl := Some key\<rparr>"
  by (simp_all add: lead.defs pending_lead.defs)

lemma inv_add:
  assumes "lead_store_inv pendingLeads"
  shows "lead_store_inv (snd (addPendingLead nowIso l pendingLeads))"
proof (cases "fst (addPendingLead nowIso l pendingLeads)")
  case None
  then show ?thesis using assms addPendingLead_None by simp
next
  case (Some key)
  note a = addPendingLead_Some [OF Some]
  show ?thesis
    unfolding lead_store_inv_def
  proof (intro allI impI)
    fix k v assume kv: "snd (addPendingLead nowIso l pendingLeads) k = Some v"
    show "k \<noteq> [] \<and> linkedinUrl v = Some k \<and> (\<exists>x. normalizeLinkedInUrl x = Some k)"
    proof (cases "k = key")
      case True
      then have "v = lead.extend (l\<lparr>linkedinUrl := Some key\<rparr>) (pending_lead.fields nowIso)"
        using kv a by simp
      then show ?thesis using True a stamped(2) by blast
    next
      case False
      then have "pendingLeads k = Some v" using kv a by simp
      then show ?thesis using assms by (simp add: lead_store_inv_def)
    qed
  qed
qed

lemma inv_get:
  assumes "lead_store_inv pendingLeads"
  shows "lead_store_inv (snd (getPendingLead url pendingLeads))"
  using assms
  by (auto simp: getPendingLead_def lead_store_inv_def split: option.splits if_splits)

lemma inv_has: "snd (hasPendingLead url pendingLeads) = pendingLeads"
  by (auto simp: hasPendingLead_def split: option.splits)

section \<open>The claims\<close>

text \<open>
  C1. Whenever every attempt of the budget fails, by a thrown error or by a transcript
  that the validity test rejects, \<^verbatim>\<open>pollForTranscript\<close> returns \<^verbatim>\<open>null\<close>, sends
  exactly \<open>maxAttempts\<close> requests and waits \<open>baseDelayMs * 2 ^ (i - 1)\<close> after each
  attempt \<open>i\<close> but the last; a thrown error never ends the loop. With the settings of
  \<^verbatim>\<open>getConfig\<close> these are five requests and waits of 30000, 60000, 120000 and 240000
  milliseconds, with no wait after the fifth request.
\<close>

theorem pollForTranscript_exhausts_retry_budget:
  assumes "\<forall>i. 1 \<le> i \<and> i \<le> maxAttempts (retry cfg)
               \<longrightarrow> (\<forall>text. attempt_outcome (fetch i) \<noteq> Found text)"
  shows "fst (pollForTranscript fetch uuid cfg) = None
    \<and> requests_and_waits (snd (pollForTranscript fetch uuid cfg))
        = concat (map (failed_attempt uuid cfg) [1 ..< Suc (maxAttempts (retry cfg))])
    \<and> fetch_calls (snd (pollForTranscript fetch uuid cfg))
        = replicate (maxAttempts (retry cfg)) (''https://api.calendly.com/scheduled_events/'' @ uuid)
    \<and> waits (snd (pollForTranscript fetch uuid cfg))
        = map (\<lambda>i. baseDelayMs (retry cfg) * 2 ^ (i - 1)) [1 ..< maxAttempts (retry cfg)]
    \<and> (cfg = getConfig pat \<longrightarrow>
         length (fetch_calls (snd (pollForTranscript fetch uuid cfg))) = 5
         \<and> waits (snd (pollForTranscript fetch uuid cfg)) = [30000, 60000, 120000, 240000]
         \<and> requests_and_waits (snd (pollForTranscript fetch uuid cfg))
             = [HttpGet (''https://api.calendly.com/scheduled_events/'' @ uuid), Sleep 30000,
                HttpGet (''https://api.calendly.com/scheduled_events/'' @ uuid), Sleep 60000,
                HttpGet (''https://api.calendly.com/scheduled_events/'' @ uuid), Sleep 120000,
                HttpGet (''https://api.calendly.com/scheduled_events/'' @ uuid), Sleep 240000,
                HttpGet (''https://api.calendly.com/scheduled_events/'' @ uuid)])"
proof -
  let ?e = "snd (pollForTranscript fetch uuid cfg)"
  have ex: "fst (pollForTranscript fetch uuid cfg) = None"
    "requests_and_waits ?e = concat (map (failed_attempt uuid cfg) [1 ..< Suc (maxAttempts (retry cfg))])"
    using pollLoop_exhausted [of 1 cfg fetch uuid] assms by (simp_all add: pollForTranscript_def)
  have f: "fetch_calls ?e = replicate (maxAttempts (retry cfg)) (''https://api.calendly.com/scheduled_events/'' @ uuid)"
    using fetch_calls_raw [of ?e] unfolding ex(2) fetch_calls_failed by (simp del: upt_Suc)
  have w: "waits ?e = map (\<lambda>i. baseDelayMs (retry cfg) * 2 ^ (i - 1)) [1 ..< maxAttempts (retry cfg)]"
    using waits_raw [of ?e] unfolding ex(2) waits_failed_all by simp
  have five: "[Suc 0 ..< 5] = [1, 2, 3, 4]" "[Suc 0 ..< 6] = [1, 2, 3, 4, 5]"
    by (simp_all add: upt_rec)
  have c: "length (fetch_calls ?e) = 5 \<and> waits ?e = [30000, 60000, 120000, 240000]
     \<and> requests_and_waits ?e
             = [HttpGet (''https://api.calendly.com/scheduled_events/'' @ uuid), Sleep 30000,
                HttpGet (''https://api.calendly.com/scheduled_events/'' @ uuid), Sleep 60000,
                HttpGet (''https://api.calendly.com/scheduled_events/'' @ uuid), Sleep 120000,
                HttpGet (''https://api.calendly.com/scheduled_events/'' @ uuid), Sleep 240000,
                HttpGet (''https://api.calendly.com/scheduled_events/'' @ uuid)]"
    if "cfg = getConfig pat"
    unfolding f w ex(2) using that by (simp add: getConfig_def five failed_attempt_def)
  show ?thesis using ex f w c by blast
qed

lemmas poll_eval = never_ready_def attempt_outcome_def extract_transcript_def or_else_def truthy_def
  event_resource.defs response_data.defs

theorem pollForTranscript_exhausts_retry_budget_witness:
  "attempt_outcome (never_ready 1)
     = Caught \<lparr>response_status = Some 404, message = ''Request failed with status code 404''\<rparr>
   \<and> attempt_outcome (never_ready 2)
     = Caught \<lparr>response_status = Some 500, message = ''Request failed with status code 500''\<rparr>
   \<and> attempt_outcome (never_ready 3)
     = Caught \<lparr>response_status = None, message = ''Cannot read properties of undefined''\<rparr>
   \<and> attempt_outcome (never_ready 4) = NotReady
   \<and> attempt_outcome (never_ready 5) = NotReady
   \<and> fst (pollForTranscript never_ready ''E1'' (getConfig None)) = None
   \<and> length (fetch_calls (snd (pollForTranscript never_ready ''E1'' (getConfig None)))) = 5
   \<and> waits (snd (pollForTranscript never_ready ''E1'' (getConfig None)))
       = [30000, 60000, 120000, 240000]"
proof -
  have h: "\<forall>i. 1 \<le> i \<and> i \<le> maxAttempts (retry (getConfig None))
        \<longrightarrow> (\<forall>text. attempt_outcome (never_ready i) \<noteq> Found text)"
    by (simp add: poll_eval)
  have o: "attempt_outcome (never_ready 1)
     = Caught \<lparr>response_status = Some 404, message = ''Request failed with status code 404''\<rparr>"
    "attempt_outcome (never_ready 2)
     = Caught \<lparr>response_status = Some 500, message = ''Request failed with status code 500''\<rparr>"
    "attempt_outcome (never_ready 3)
     = Caught \<lparr>response_status = None, message = ''Cannot read properties of undefined''\<rparr>"
    "attempt_outcome (never_ready 4) = NotReady"
    "attempt_outcome (never_ready 5) = NotReady"
    by (simp_all add: poll_eval)
  show ?thesis
    using o pollForTranscript_exhausts_retry_budget [OF h, of "''E1''" None] by blast
qed

text \<open>
  C8. A candidate whose \<^verbatim>\<open>meetingUrl\<close> and \<^verbatim>\<open>startTime\<close> are both absent (or empty)
  gets \<^verbatim>\<open>null\<close> from \<^verbatim>\<open>findMatch\<close>, whatever the store holds and whatever the
  emails of the candidate are: no booking is matched on its emails alone.
\<close>

theorem findMatch_refuses_email_only:
  assumes "\<not> truthy meetingUrl'" and "\<not> truthy startTime'"
  shows "fst (findMatch parseUrl getTime now meetingUrl' guestEmail' hostEmail' startTime' bookings)
         = None"
  using assms by (simp add: findMatch_def Let_def)

theorem findMatch_refuses_email_only_witness:
  "emailsAlign (stored 1705300000000 booking_E1) (Some ''a@x.com'') None
   \<and> fst (findMatch newURL Date_getTime 1705300000000 None (Some ''a@x.com'') None None
            (addBooking 1705300000000 booking_E1 [])) = None"
proof -
  have a: "emailsAlign (stored 1705300000000 booking_E1) (Some ''a@x.com'') None"
    by (simp add: store_eval string_eval)
  have h: "\<not> truthy None" by (simp add: truthy_def)
  show ?thesis
    using a findMatch_refuses_email_only [OF h h, of newURL Date_getTime 1705300000000
        "Some ''a@x.com''" None "addBooking 1705300000000 booking_E1 []"]
    by simp
qed

text \<open>
  C3. \<^verbatim>\<open>findMatch\<close> returns a booking only when the emails align: the guest emails of
  the booking and of the candidate are both present, non-empty and equal after
  \<^verbatim>\<open>toLowerCase\<close>, and the host emails are equal after \<^verbatim>\<open>toLowerCase\<close> whenever
  both are present and non-empty; a host email that is absent on either side blocks
  nothing.
\<close>

theorem findMatch_requires_email_alignment:
  "(fst (findMatch parseUrl getTime now meetingUrl' guestEmail' hostEmail' startTime' bookings)
      = Some rec
    \<longrightarrow> emailsAlign rec guestEmail' hostEmail')
   \<and> (emailsAlign rec guestEmail' hostEmail' =
        ((\<exists>a b. booking.guestEmail rec = Some a \<and> guestEmail' = Some b \<and> a \<noteq> [] \<and> b \<noteq> []
                \<and> toLowerCase a = toLowerCase b)
         \<and> (\<forall>c d. booking.hostEmail rec = Some c \<and> hostEmail' = Some d \<and> c \<noteq> [] \<and> d \<noteq> []
                \<longrightarrow> toLowerCase c = toLowerCase d)))"
proof -
  have "emailsAlign rec guestEmail' hostEmail'"
    if "fst (findMatch parseUrl getTime now meetingUrl' guestEmail' hostEmail' startTime' bookings)
        = Some rec"
    using findMatch_result [OF that] by (simp add: qualifies_def)
  then show ?thesis using emailsAlign_iff by blast
qed

theorem findMatch_requires_email_alignment_witness:
  "fst (findMatch newURL Date_getTime 1705300000000 (Some ''https://zoom.us/j/123?pwd=abc'')
          (Some ''A@X.com'') (Some ''host@y.com'') None (addBooking 1705300000000 booking_E1 []))
     = Some (stored 1705300000000 booking_E1)
   \<and> emailsAlign (stored 1705300000000 booking_E1) (Some ''A@X.com'') (Some ''host@y.com'')
   \<and> booking.guestEmail (stored 1705300000000 booking_E1) = Some ''a@x.com''
   \<and> booking.hostEmail (stored 1705300000000 booking_E1) = None
   \<and> toLowerCase ''a@x.com'' = toLowerCase ''A@X.com''"
proof -
  have f: "fst (findMatch newURL Date_getTime 1705300000000 (Some ''https://zoom.us/j/123?pwd=abc'')
          (Some ''A@X.com'') (Some ''host@y.com'') None (addBooking 1705300000000 booking_E1 []))
     = Some (stored 1705300000000 booking_E1)"
    by (simp add: store_eval url_eval string_eval)
  have g: "booking.guestEmail (stored 1705300000000 booking_E1) = Some ''a@x.com''"
    "booking.hostEmail (stored 1705300000000 booking_E1) = None"
    by (simp_all add: store_eval)
  have a: "emailsAlign (stored 1705300000000 booking_E1) (Some ''A@X.com'') (Some ''host@y.com'')"
    using f findMatch_requires_email_alignment [of newURL Date_getTime 1705300000000
        "Some ''https://zoom.us/j/123?pwd=abc''" "Some ''A@X.com''" "Some ''host@y.com''" None
        "addBooking 1705300000000 booking_E1 []" "stored 1705300000000 booking_E1"]
    by blast
  have l: "toLowerCase ''a@x.com'' = toLowerCase ''A@X.com''"
    using a g findMatch_requires_email_alignment [of newURL Date_getTime 1705300000000
        "Some ''https://zoom.us/j/123?pwd=abc''" "Some ''A@X.com''" "Some ''host@y.com''" None
        "addBooking 1705300000000 booking_E1 []" "stored 1705300000000 booking_E1"]
    by auto
  show ?thesis using f g a l by blast
qed

text \<open>
  C5. \<^verbatim>\<open>addBooking\<close> sweeps after its write and \<^verbatim>\<open>findMatch\<close> sweeps before its
  read; the sweep removes exactly the entries whose age exceeds \<^const>\<open>TTL_MS\<close>, which is
  24 hours. Hence a booking inserted at the time \<open>T\<close> is returned by
  \<^verbatim>\<open>findMatch\<close> at \<open>T + TTL_MS - 1\<close> for a candidate for which it alone qualifies, and
  no call of
  \<^verbatim>\<open>findMatch\<close> at \<open>T + TTL_MS + 1\<close> or later returns a booking stamped \<open>T\<close>. An
  entry stays in the store through every call that runs while its age is at most
  \<^const>\<open>TTL_MS\<close> and that does not write its key.
\<close>

theorem booking_store_sweeps_on_every_operation:
  "addBooking now recd bookings
     = cleanup now (Map_set (eventUuid recd) (stored now recd) bookings)
   \<and> snd (findMatch parseUrl getTime now meetingUrl' guestEmail' hostEmail' startTime' bookings)
       = cleanup now bookings
   \<and> (fst (findMatch parseUrl getTime now meetingUrl' guestEmail' hostEmail' startTime' bookings)
         = Some rec
       \<longrightarrow> (\<exists>key. (key, rec) \<in> set (cleanup now bookings)))
   \<and> set (cleanup now bookings) = {(key, rec) \<in> set bookings. now - createdAt rec \<le> TTL_MS}
   \<and> (qualifies parseUrl getTime meetingUrl' guestEmail' hostEmail' startTime' (stored T recd)
       \<and> (\<forall>(k', r') \<in> set (addBooking T recd bookings).
             qualifies parseUrl getTime meetingUrl' guestEmail' hostEmail' startTime' r'
             \<longrightarrow> r' = stored T recd)
       \<longrightarrow> fst (findMatch parseUrl getTime (T + TTL_MS - 1) meetingUrl' guestEmail' hostEmail'
                  startTime' (addBooking T recd bookings))
           = Some (stored T recd))
   \<and> (T + TTL_MS + 1 \<le> now' \<and> createdAt rec' = T
       \<longrightarrow> fst (findMatch parseUrl getTime now' meetingUrl' guestEmail' hostEmail' startTime'
                  bookings')
           \<noteq> Some rec')
   \<and> ((key0, rec0) \<in> set bookings \<and> now - createdAt rec0 \<le> TTL_MS
       \<longrightarrow> (key0, rec0)
             \<in> set (snd (findMatch parseUrl getTime now meetingUrl' guestEmail' hostEmail'
                             startTime' bookings))
           \<and> (eventUuid recd \<noteq> key0 \<longrightarrow> (key0, rec0) \<in> set (addBooking now recd bookings)))
   \<and> TTL_MS = 24 * 60 * 60 * 1000"
proof -
  have 1: "addBooking now recd bookings
     = cleanup now (Map_set (eventUuid recd) (stored now recd) bookings)"
    by (simp add: addBooking_def stored_def)
  have 3: "\<exists>key. (key, rec) \<in> set (cleanup now bookings)"
    if "fst (findMatch parseUrl getTime now meetingUrl' guestEmail' hostEmail' startTime' bookings)
         = Some rec"
    using findMatch_result [OF that] by (auto simp: set_cleanup)
  have 5: "fst (findMatch parseUrl getTime (T + TTL_MS - 1) meetingUrl' guestEmail' hostEmail'
                  startTime' (addBooking T recd bookings))
           = Some (stored T recd)"
    if "qualifies parseUrl getTime meetingUrl' guestEmail' hostEmail' startTime' (stored T recd)"
      and "\<forall>(k', r') \<in> set (addBooking T recd bookings).
             qualifies parseUrl getTime meetingUrl' guestEmail' hostEmail' startTime' r'
             \<longrightarrow> r' = stored T recd"
  proof (rule findMatch_only [OF addBooking_stored _ that(1)])
    show "T + TTL_MS - 1 - createdAt (stored T recd) \<le> TTL_MS" by simp
    show "\<forall>(k', r')\<in>set (addBooking T recd bookings).
       T + TTL_MS - 1 - createdAt r' \<le> TTL_MS
       \<and> qualifies parseUrl getTime meetingUrl' guestEmail' hostEmail' startTime' r'
       \<longrightarrow> r' = stored T recd"
      using that(2) by auto
  qed
  have 6: "fst (findMatch parseUrl getTime now' meetingUrl' guestEmail' hostEmail' startTime'
                  bookings') \<noteq> Some rec'"
    if "T + TTL_MS + 1 \<le> now'" "createdAt rec' = T"
  proof
    assume "fst (findMatch parseUrl getTime now' meetingUrl' guestEmail' hostEmail' startTime'
                  bookings') = Some rec'"
    from findMatch_result [OF this] show False using that by simp
  qed
  have 7: "(key0, rec0)
             \<in> set (snd (findMatch parseUrl getTime now meetingUrl' guestEmail' hostEmail'
                             startTime' bookings))
           \<and> (eventUuid recd \<noteq> key0 \<longrightarrow> (key0, rec0) \<in> set (addBooking now recd bookings))"
    if "(key0, rec0) \<in> set bookings" "now - createdAt rec0 \<le> TTL_MS"
    using that by (simp add: findMatch_store set_cleanup addBooking_def Map_set_keeps)
  have 8: "TTL_MS = 24 * 60 * 60 * 1000" by (simp add: TTL_MS_def)
  show ?thesis using 1 findMatch_store set_cleanup 3 5 6 7 8 by (intro conjI impI) blast+
qed


theorem booking_store_sweeps_on_every_operation_witness:
  "qualifies newURL Date_getTime (Some ''https://zoom.us/j/123?pwd=abc'') (Some ''a@x.com'') None
     None (stored 1705300000000 booking_E1)
   \<and> addBooking 1705300000000 booking_E1 [] = [(''E1'', stored 1705300000000 booking_E1)]
   \<and> fst (findMatch newURL Date_getTime (1705300000000 + TTL_MS - 1)
            (Some ''https://zoom.us/j/123?pwd=abc'') (Some ''a@x.com'') None None
            (addBooking 1705300000000 booking_E1 []))
       = Some (stored 1705300000000 booking_E1)
   \<and> fst (findMatch newURL Date_getTime (1705300000000 + TTL_MS + 1)
            (Some ''https://zoom.us/j/123?pwd=abc'') (Some ''a@x.com'') None None
            (addBooking 1705300000000 booking_E1 []))
       \<noteq> Some (stored 1705300000000 booking_E1)"
proof -
  have q: "qualifies newURL Date_getTime (Some ''https://zoom.us/j/123?pwd=abc'')
             (Some ''a@x.com'') None None (stored 1705300000000 booking_E1)"
    by (simp add: store_eval url_eval string_eval)
  have s: "addBooking 1705300000000 booking_E1 [] = [(''E1'', stored 1705300000000 booking_E1)]"
    by (simp add: addBooking_def stored_def TTL_MS_def booking_E1_def)
  have only: "\<forall>(k', r') \<in> set (addBooking 1705300000000 booking_E1 []).
      qualifies newURL Date_getTime (Some ''https://zoom.us/j/123?pwd=abc'') (Some ''a@x.com'')
        None None r' \<longrightarrow> r' = stored 1705300000000 booking_E1"
    unfolding s by simp
  have late: "1705300000000 + TTL_MS + 1 \<le> 1705300000000 + TTL_MS + 1
      \<and> createdAt (stored 1705300000000 booking_E1) = 1705300000000"
    by simp
  note t = booking_store_sweeps_on_every_operation [of 0 booking_E1 "[]" newURL Date_getTime
      "Some ''https://zoom.us/j/123?pwd=abc''" "Some ''a@x.com''" None None
      "stored 1705300000000 booking_E1" 1705300000000 "1705300000000 + TTL_MS + 1"
      "stored 1705300000000 booking_E1" "addBooking 1705300000000 booking_E1 []"]
  show ?thesis using q s only late t by blast
qed

text \<open>
  C10. The sweep keeps an entry whose age is exactly \<^const>\<open>TTL_MS\<close>, and removes an
  entry only when its age is greater; a booking of that age is still returned by
  \<^verbatim>\<open>findMatch\<close> when it is the first live booking that qualifies.
\<close>

theorem cleanup_retains_at_exact_ttl:
  "((key, rec) \<in> set bookings \<and> now - createdAt rec = TTL_MS
      \<longrightarrow> (key, rec) \<in> set (cleanup now bookings))
   \<and> ((key, rec) \<in> set bookings \<and> (key, rec) \<notin> set (cleanup now bookings)
      \<longrightarrow> now - createdAt rec > TTL_MS)
   \<and> (bookings = pre @ (key, rec) # post \<and> now - createdAt rec = TTL_MS
       \<and> qualifies parseUrl getTime meetingUrl' guestEmail' hostEmail' startTime' rec
       \<and> (\<forall>(k', r') \<in> set pre. now - createdAt r' \<le> TTL_MS
             \<longrightarrow> \<not> qualifies parseUrl getTime meetingUrl' guestEmail' hostEmail' startTime' r')
      \<longrightarrow> fst (findMatch parseUrl getTime now meetingUrl' guestEmail' hostEmail' startTime'
                 bookings) = Some rec)"
proof -
  have 3: "fst (findMatch parseUrl getTime now meetingUrl' guestEmail' hostEmail' startTime'
                 bookings) = Some rec"
    if "bookings = pre @ (key, rec) # post" "now - createdAt rec = TTL_MS"
      "qualifies parseUrl getTime meetingUrl' guestEmail' hostEmail' startTime' rec"
      "\<forall>(k', r') \<in> set pre. now - createdAt r' \<le> TTL_MS
             \<longrightarrow> \<not> qualifies parseUrl getTime meetingUrl' guestEmail' hostEmail' startTime' r'"
    using findMatch_first [OF that(1) _ that(3,4)] that(2) by simp
  show ?thesis using 3 by (auto simp: set_cleanup)
qed

theorem cleanup_retains_at_exact_ttl_witness:
  "1705300000000 + TTL_MS - createdAt (stored 1705300000000 booking_E1) = TTL_MS
   \<and> cleanup (1705300000000 + TTL_MS) [(''E1'', stored 1705300000000 booking_E1)]
       = [(''E1'', stored 1705300000000 booking_E1)]
   \<and> fst (findMatch newURL Date_getTime (1705300000000 + TTL_MS) None (Some ''a@x.com'') None
            (Some ''2024-01-15T09:45:00Z'') [(''E1'', stored 1705300000000 booking_E1)])
       = Some (stored 1705300000000 booking_E1)
   \<and> cleanup (1705300000000 + TTL_MS + 1) [(''E1'', stored 1705300000000 booking_E1)] = []"
proof -
  have age: "1705300000000 + TTL_MS - createdAt (stored 1705300000000 booking_E1) = TTL_MS"
    by simp
  have q: "qualifies newURL Date_getTime None (Some ''a@x.com'') None
             (Some ''2024-01-15T09:45:00Z'') (stored 1705300000000 booking_E1)"
    by (simp add: store_eval string_eval date_eval)
  have l: "[(''E1'', stored 1705300000000 booking_E1)]
           = [] @ (''E1'', stored 1705300000000 booking_E1) # []"
    by simp
  have pre: "\<forall>(k', r') \<in> set []. 1705300000000 + TTL_MS - createdAt r' \<le> TTL_MS
      \<longrightarrow> \<not> qualifies newURL Date_getTime None (Some ''a@x.com'') None
              (Some ''2024-01-15T09:45:00Z'') r'"
    by simp
  note t = cleanup_retains_at_exact_ttl [of "''E1''" "stored 1705300000000 booking_E1"
      "[(''E1'', stored 1705300000000 booking_E1)]" "1705300000000 + TTL_MS" "[]" "[]"
      newURL Date_getTime None "Some ''a@x.com''" None "Some ''2024-01-15T09:45:00Z''"]
  have f: "fst (findMatch newURL Date_getTime (1705300000000 + TTL_MS) None (Some ''a@x.com'') None
            (Some ''2024-01-15T09:45:00Z'') [(''E1'', stored 1705300000000 booking_E1)])
       = Some (stored 1705300000000 booking_E1)"
    using age q l pre t by blast
  have c: "cleanup (1705300000000 + TTL_MS) [(''E1'', stored 1705300000000 booking_E1)]
       = [(''E1'', stored 1705300000000 booking_E1)]"
    "cleanup (1705300000000 + TTL_MS + 1) [(''E1'', stored 1705300000000 booking_E1)] = []"
    by (simp_all add: TTL_MS_def)
  show ?thesis using age f c by blast
qed

text \<open>
  C2 as stated fails: \<^verbatim>\<open>normalizeUrl\<close> keeps the query string. The stored meeting URL
  \<^verbatim>\<open>https://zoom.us/j/123?pwd=abc\<close> and the candidate
  \<^verbatim>\<open>https://zoom.us/j/123\<close> differ only in the query string and the emails align,
  yet \<^verbatim>\<open>findMatch\<close> returns \<^verbatim>\<open>null\<close>. Where the meeting URLs differ only in
  the fragment, the booking that is returned is the first one in iteration order that
  qualifies (here \<^verbatim>\<open>E2\<close>, not \<^verbatim>\<open>E1\<close>); a booking that is older than the
  TTL is swept before the loop and not returned; and strings that the URL constructor
  rejects (here for want of a scheme) keep their fragments and are compared as they are.
\<close>

theorem findMatch_url_rule_query_counterexample:
  "emailsAlign (stored 1705300000000 booking_E1) (Some ''a@x.com'') None
   \<and> booking.meetingUrl (stored 1705300000000 booking_E1) = Some ''https://zoom.us/j/123?pwd=abc''
   \<and> normalizeUrl newURL ''https://zoom.us/j/123?pwd=abc'' = ''https://zoom.us/j/123?pwd=abc''
   \<and> normalizeUrl newURL ''https://zoom.us/j/123'' = ''https://zoom.us/j/123''
   \<and> fst (findMatch newURL Date_getTime 1705300000000 (Some ''https://zoom.us/j/123'')
            (Some ''a@x.com'') None None [(''E1'', stored 1705300000000 booking_E1)])
       = None
   \<and> addBooking 1705300000000 booking_E1 (addBooking 1705300000000 booking_E2 [])
       = [(''E2'', stored 1705300000000 booking_E2), (''E1'', stored 1705300000000 booking_E1)]
   \<and> emailsAlign (stored 1705300000000 booking_E2) (Some ''a@x.com'') None
   \<and> normalizeUrl newURL ''https://zoom.us/j/123?pwd=abc#lobby'' = ''https://zoom.us/j/123?pwd=abc''
   \<and> normalizeUrl newURL ''https://zoom.us/j/123?pwd=abc#chat'' = ''https://zoom.us/j/123?pwd=abc''
   \<and> fst (findMatch newURL Date_getTime 1705300000000 (Some ''https://zoom.us/j/123?pwd=abc#chat'')
            (Some ''a@x.com'') None None
            (addBooking 1705300000000 booking_E1 (addBooking 1705300000000 booking_E2 [])))
       = Some (stored 1705300000000 booking_E2)
   \<and> stored 1705300000000 booking_E2 \<noteq> stored 1705300000000 booking_E1
   \<and> fst (findMatch newURL Date_getTime 1705386400001 (Some ''https://zoom.us/j/123?pwd=abc#chat'')
            (Some ''a@x.com'') None None [(''E1'', stored 1705300000000 booking_E1)])
       = None
   \<and> booking.meetingUrl (stored 1705300000000 booking_E3) = Some ''zoom.us/j/123#lobby''
   \<and> emailsAlign (stored 1705300000000 booking_E3) (Some ''a@x.com'') None
   \<and> newURL ''zoom.us/j/123#lobby'' = None
   \<and> newURL ''zoom.us/j/123#chat'' = None
   \<and> fst (findMatch newURL Date_getTime 1705300000000 (Some ''zoom.us/j/123#chat'')
            (Some ''a@x.com'') None None [(''E3'', stored 1705300000000 booking_E3)])
       = None"
  by (simp add: store_eval url_eval string_eval booking_E2_def booking_E3_def)

text \<open>
  C2, amended. The URL rule compares the two meeting URLs after \<^verbatim>\<open>normalizeUrl\<close>,
  which strips the fragment and keeps the query string. Let the stored booking be live,
  let both meeting URLs be non-empty and read by the URL constructor, let the candidate's
  URL be the stored one up to query and fragment, and let the emails align. Then the URL
  rule holds exactly when the two query strings are the same, that is, when the URLs
  differ only in the fragment. In that case \<^verbatim>\<open>findMatch\<close> returns a booking: that
  booking when no live booking before it in iteration order qualifies. When the query
  strings differ, \<^verbatim>\<open>findMatch\<close> does not return that booking unless the time rule
  holds for it. A string that the URL constructor rejects is compared as it is.
\<close>

theorem findMatch_url_rule_strips_fragment_only:
  assumes "bookings = pre @ (key, rec) # post"
    and "now - createdAt rec \<le> TTL_MS"
    and "meetingUrl' = Some candUrl" and "candUrl \<noteq> []"
    and "booking.meetingUrl rec = Some recUrl" and "recUrl \<noteq> []"
    and "parseUrl recUrl = Some u"
    and "parseUrl candUrl = Some (u\<lparr>query := q', fragment := f'\<rparr>)"
    and "emailsAlign rec guestEmail' hostEmail'"
  shows "urlMatch parseUrl meetingUrl' rec = (q' = query u)
    \<and> (q' = query u
       \<longrightarrow> fst (findMatch parseUrl getTime now meetingUrl' guestEmail' hostEmail' startTime'
                  bookings) \<noteq> None)
    \<and> (q' = query u
         \<and> (\<forall>(k', r') \<in> set pre. now - createdAt r' \<le> TTL_MS
               \<longrightarrow> \<not> qualifies parseUrl getTime meetingUrl' guestEmail' hostEmail' startTime' r')
       \<longrightarrow> fst (findMatch parseUrl getTime now meetingUrl' guestEmail' hostEmail' startTime'
                  bookings) = Some rec)
    \<and> (q' \<noteq> query u \<and> \<not> timeMatch getTime startTime' rec
       \<longrightarrow> fst (findMatch parseUrl getTime now meetingUrl' guestEmail' hostEmail' startTime'
                  bookings) \<noteq> Some rec)
    \<and> (parseUrl s = None \<longrightarrow> normalizeUrl parseUrl s = s)"
proof -
  have n: "(normalizeUrl parseUrl recUrl = normalizeUrl parseUrl candUrl) = (q' = query u)"
    using assms(7,8) by (rule normalizeUrl_query_eq)
  have 1: "urlMatch parseUrl meetingUrl' rec = (q' = query u)"
    using assms(3-6) n by (simp add: urlMatch_def)
  have q: "qualifies parseUrl getTime meetingUrl' guestEmail' hostEmail' startTime' rec"
    if "q' = query u"
    using that 1 assms(9) by (simp add: qualifies_def)
  have m: "(key, rec) \<in> set bookings" using assms(1) by simp
  have 2: "fst (findMatch parseUrl getTime now meetingUrl' guestEmail' hostEmail' startTime'
             bookings) \<noteq> None"
    if "q' = query u"
    using m assms(2) q [OF that] by (rule findMatch_some)
  have 3: "fst (findMatch parseUrl getTime now meetingUrl' guestEmail' hostEmail' startTime'
                  bookings) = Some rec"
    if "q' = query u"
      and "\<forall>(k', r') \<in> set pre. now - createdAt r' \<le> TTL_MS
           \<longrightarrow> \<not> qualifies parseUrl getTime meetingUrl' guestEmail' hostEmail' startTime' r'"
    using assms(1,2) q [OF that(1)] that(2) by (rule findMatch_first)
  have 4: "fst (findMatch parseUrl getTime now meetingUrl' guestEmail' hostEmail' startTime'
                  bookings) \<noteq> Some rec"
    if d: "q' \<noteq> query u" and t: "\<not> timeMatch getTime startTime' rec"
  proof
    assume "fst (findMatch parseUrl getTime now meetingUrl' guestEmail' hostEmail' startTime'
                  bookings) = Some rec"
    then have "qualifies parseUrl getTime meetingUrl' guestEmail' hostEmail' startTime' rec"
      using findMatch_result by blast
    then show False using d t 1 by (simp add: qualifies_def)
  qed
  have 5: "normalizeUrl parseUrl s = s" if "parseUrl s = None"
    using that by (simp add: normalizeUrl_def)
  show ?thesis using 1 2 3 4 5 by blast
qed

theorem findMatch_url_rule_strips_fragment_only_witness:
  "newURL ''https://zoom.us/j/123?pwd=abc''
     = Some \<lparr>scheme = ''https'', username = [], password = [], host = Some ''zoom.us'',
             port = None, path = Segments [''j'', ''123''], query = Some ''pwd=abc'',
             fragment = None\<rparr>
   \<and> newURL ''https://zoom.us/j/123?pwd=abc#chat''
     = Some \<lparr>scheme = ''https'', username = [], password = [], host = Some ''zoom.us'',
             port = None, path = Segments [''j'', ''123''], query = Some ''pwd=abc'',
             fragment = Some ''chat''\<rparr>
   \<and> newURL ''https://zoom.us/j/123#chat''
     = Some \<lparr>scheme = ''https'', username = [], password = [], host = Some ''zoom.us'',
             port = None, path = Segments [''j'', ''123''], query = None,
             fragment = Some ''chat''\<rparr>
   \<and> normalizeUrl newURL ''https://zoom.us/j/123?pwd=abc'' = ''https://zoom.us/j/123?pwd=abc''
   \<and> normalizeUrl newURL ''https://zoom.us/j/123?pwd=abc#chat'' = ''https://zoom.us/j/123?pwd=abc''
   \<and> normalizeUrl newURL ''https://zoom.us/j/123#chat'' = ''https://zoom.us/j/123''
   \<and> emailsAlign (stored 1705300000000 booking_E1) (Some ''a@x.com'') None
   \<and> urlMatch newURL (Some ''https://zoom.us/j/123?pwd=abc#chat'') (stored 1705300000000 booking_E1)
   \<and> fst (findMatch newURL Date_getTime 1705300000000 (Some ''https://zoom.us/j/123?pwd=abc#chat'')
            (Some ''a@x.com'') None None [(''E1'', stored 1705300000000 booking_E1)])
       = Some (stored 1705300000000 booking_E1)
   \<and> \<not> urlMatch newURL (Some ''https://zoom.us/j/123#chat'') (stored 1705300000000 booking_E1)
   \<and> fst (findMatch newURL Date_getTime 1705300000000 (Some ''https://zoom.us/j/123#chat'')
            (Some ''a@x.com'') None None [(''E1'', stored 1705300000000 booking_E1)])
       \<noteq> Some (stored 1705300000000 booking_E1)
   \<and> newURL ''zoom.us/j/123#chat'' = None
   \<and> normalizeUrl newURL ''zoom.us/j/123#chat'' = ''zoom.us/j/123#chat''"
proof -
  let ?U = "\<lparr>scheme = ''https'', username = [], password = [], host = Some ''zoom.us'',
             port = None, path = Segments [''j'', ''123''], query = Some ''pwd=abc'',
             fragment = None\<rparr>"
  have l: "[(''E1'', stored 1705300000000 booking_E1)]
           = [] @ (''E1'', stored 1705300000000 booking_E1) # []"
    by simp
  have age: "1705300000000 - createdAt (stored 1705300000000 booking_E1) \<le> TTL_MS"
    by (simp add: TTL_MS_def)
  have c1: "Some ''https://zoom.us/j/123?pwd=abc#chat'' = Some ''https://zoom.us/j/123?pwd=abc#chat''"
    "''https://zoom.us/j/123?pwd=abc#chat'' \<noteq> []"
    by simp_all
  have c2: "Some ''https://zoom.us/j/123#chat'' = Some ''https://zoom.us/j/123#chat''"
    "''https://zoom.us/j/123#chat'' \<noteq> []"
    by simp_all
  have r: "booking.meetingUrl (stored 1705300000000 booking_E1) = Some ''https://zoom.us/j/123?pwd=abc''"
    "''https://zoom.us/j/123?pwd=abc'' \<noteq> []"
    by (simp_all add: store_eval)
  have p0: "newURL ''https://zoom.us/j/123?pwd=abc'' = Some ?U"
    by (simp add: url_eval)
  have p1: "newURL ''https://zoom.us/j/123?pwd=abc#chat''
              = Some (?U\<lparr>query := Some ''pwd=abc'', fragment := Some ''chat''\<rparr>)"
    by (simp add: url_eval)
  have p2: "newURL ''https://zoom.us/j/123#chat''
              = Some (?U\<lparr>query := None, fragment := Some ''chat''\<rparr>)"
    by (simp add: url_eval)
  have a: "emailsAlign (stored 1705300000000 booking_E1) (Some ''a@x.com'') None"
    by (simp add: store_eval string_eval)
  have pre: "\<forall>(k', r') \<in> set []. 1705300000000 - createdAt r' \<le> TTL_MS
      \<longrightarrow> \<not> qualifies newURL Date_getTime (Some ''https://zoom.us/j/123?pwd=abc#chat'')
              (Some ''a@x.com'') None None r'"
    by simp
  have same: "Some ''pwd=abc'' = query ?U" by simp
  have other: "None \<noteq> query ?U" by simp
  have nt: "\<not> timeMatch Date_getTime None (stored 1705300000000 booking_E1)"
    by (simp add: timeMatch_def)
  note t1 = findMatch_url_rule_strips_fragment_only
      [OF l age c1 r p0 p1 a, of Date_getTime None "''zoom.us/j/123#chat''"]
  note t2 = findMatch_url_rule_strips_fragment_only
      [OF l age c2 r p0 p2 a, of Date_getTime None "''zoom.us/j/123#chat''"]
  have u1: "urlMatch newURL (Some ''https://zoom.us/j/123?pwd=abc#chat'')
              (stored 1705300000000 booking_E1)"
    using t1 same by blast
  have f1: "fst (findMatch newURL Date_getTime 1705300000000 (Some ''https://zoom.us/j/123?pwd=abc#chat'')
            (Some ''a@x.com'') None None [(''E1'', stored 1705300000000 booking_E1)])
       = Some (stored 1705300000000 booking_E1)"
    using t1 same pre by blast
  have u2: "\<not> urlMatch newURL (Some ''https://zoom.us/j/123#chat'')
              (stored 1705300000000 booking_E1)"
    using t2 other by blast
  have f2: "fst (findMatch newURL Date_getTime 1705300000000 (Some ''https://zoom.us/j/123#chat'')
            (Some ''a@x.com'') None None [(''E1'', stored 1705300000000 booking_E1)])
       \<noteq> Some (stored 1705300000000 booking_E1)"
    using t2 other nt by blast
  have q1: "newURL ''https://zoom.us/j/123?pwd=abc#chat''
     = Some \<lparr>scheme = ''https'', username = [], password = [], host = Some ''zoom.us'',
             port = None, path = Segments [''j'', ''123''], query = Some ''pwd=abc'',
             fragment = Some ''chat''\<rparr>"
    using p1 by simp
  have q2: "newURL ''https://zoom.us/j/123#chat''
     = Some \<lparr>scheme = ''https'', username = [], password = [], host = Some ''zoom.us'',
             port = None, path = Segments [''j'', ''123''], query = None,
             fragment = Some ''chat''\<rparr>"
    using p2 by simp
  have n: "normalizeUrl newURL ''https://zoom.us/j/123?pwd=abc'' = ''https://zoom.us/j/123?pwd=abc''"
    "normalizeUrl newURL ''https://zoom.us/j/123?pwd=abc#chat'' = ''https://zoom.us/j/123?pwd=abc''"
    "normalizeUrl newURL ''https://zoom.us/j/123#chat'' = ''https://zoom.us/j/123''"
    by (simp_all add: url_eval)
  have p3: "newURL ''zoom.us/j/123#chat'' = None"
    by (simp add: url_eval)
  have n3: "normalizeUrl newURL ''zoom.us/j/123#chat'' = ''zoom.us/j/123#chat''"
    using t1 p3 by blast
  show ?thesis using p0 q1 q2 n a u1 f1 u2 f2 p3 n3 by blast
qed

text \<open>
  C7 as stated fails: when two stored bookings are within 15 minutes of the candidate and
  their emails align, \<^verbatim>\<open>findMatch\<close> returns the one that was inserted first, not
  the other one.
\<close>

theorem findMatch_time_rule_earlier_booking_counterexample:
  "timeMatch Date_getTime (Some ''2024-01-15T10:05:00Z'') (stored 1705300000000 booking_E1)
   \<and> emailsAlign (stored 1705300000000 booking_E1) (Some ''A@X.com'') None
   \<and> addBooking 1705300000000 booking_E1 (addBooking 1705300000000 booking_E0 [])
       = [(''E0'', stored 1705300000000 booking_E0), (''E1'', stored 1705300000000 booking_E1)]
   \<and> fst (findMatch newURL Date_getTime 1705300000000 (Some ''https://zoom.us/j/123'')
            (Some ''A@X.com'') None (Some ''2024-01-15T10:05:00Z'')
            (addBooking 1705300000000 booking_E1 (addBooking 1705300000000 booking_E0 [])))
       = Some (stored 1705300000000 booking_E0)
   \<and> stored 1705300000000 booking_E0 \<noteq> stored 1705300000000 booking_E1"
  by (simp add: store_eval url_eval string_eval date_eval)

text \<open>
  C7, amended. For every live stored booking and candidate whose start times are
  non-empty, are read by \<^verbatim>\<open>Date\<close> and differ by at most 15 minutes, and whose emails
  align, \<^verbatim>\<open>findMatch\<close> returns a booking: that booking when no live booking before
  it in iteration order qualifies. In particular the booking \<^verbatim>\<open>E1\<close> of the scenario,
  stored alone, is returned for the candidate of the scenario by the time rule, not by
  the URL rule, with the guest emails equal up to case.
\<close>

theorem findMatch_time_rule_first_match:
  assumes "bookings = pre @ (key, rec) # post"
    and "now - createdAt rec \<le> TTL_MS"
    and "startTime' = Some candStart" and "candStart \<noteq> []"
    and "booking.startTime rec = Some recStart" and "recStart \<noteq> []"
    and "getTime recStart = Some a" and "getTime candStart = Some b"
    and "\<bar>a - b\<bar> \<le> 15 * 60 * 1000"
    and "emailsAlign rec guestEmail' hostEmail'"
  shows "fst (findMatch parseUrl getTime now meetingUrl' guestEmail' hostEmail' startTime' bookings)
           \<noteq> None
    \<and> ((\<forall>(k', r') \<in> set pre. now - createdAt r' \<le> TTL_MS
           \<longrightarrow> \<not> qualifies parseUrl getTime meetingUrl' guestEmail' hostEmail' startTime' r')
       \<longrightarrow> fst (findMatch parseUrl getTime now meetingUrl' guestEmail' hostEmail' startTime'
                  bookings) = Some rec)
    \<and> (now' - T \<le> TTL_MS
       \<longrightarrow> fst (findMatch newURL Date_getTime now' (Some ''https://zoom.us/j/123'')
                  (Some ''A@X.com'') None (Some ''2024-01-15T10:05:00Z'')
                  (addBooking T booking_E1 []))
             = Some (stored T booking_E1)
           \<and> \<not> urlMatch newURL (Some ''https://zoom.us/j/123'') (stored T booking_E1)
           \<and> timeMatch Date_getTime (Some ''2024-01-15T10:05:00Z'') (stored T booking_E1)
           \<and> Date_getTime ''2024-01-15T10:05:00Z'' = Some 1705313100000
           \<and> Date_getTime ''2024-01-15T10:00:00Z'' = Some 1705312800000)"
proof -
  have q: "qualifies parseUrl getTime meetingUrl' guestEmail' hostEmail' startTime' rec"
    using assms(3-10) by (rule time_rule_qualifies)
  have m: "(key, rec) \<in> set bookings" using assms(1) by simp
  have 1: "fst (findMatch parseUrl getTime now meetingUrl' guestEmail' hostEmail' startTime'
             bookings) \<noteq> None"
    using m assms(2) q by (rule findMatch_some)
  have 2: "fst (findMatch parseUrl getTime now meetingUrl' guestEmail' hostEmail' startTime'
                  bookings) = Some rec"
    if "\<forall>(k', r') \<in> set pre. now - createdAt r' \<le> TTL_MS
           \<longrightarrow> \<not> qualifies parseUrl getTime meetingUrl' guestEmail' hostEmail' startTime' r'"
    using assms(1,2) q that by (rule findMatch_first)
  have 3: "fst (findMatch newURL Date_getTime now' (Some ''https://zoom.us/j/123'')
                  (Some ''A@X.com'') None (Some ''2024-01-15T10:05:00Z'')
                  (addBooking T booking_E1 []))
             = Some (stored T booking_E1)
           \<and> \<not> urlMatch newURL (Some ''https://zoom.us/j/123'') (stored T booking_E1)
           \<and> timeMatch Date_getTime (Some ''2024-01-15T10:05:00Z'') (stored T booking_E1)
           \<and> Date_getTime ''2024-01-15T10:05:00Z'' = Some 1705313100000
           \<and> Date_getTime ''2024-01-15T10:00:00Z'' = Some 1705312800000"
    if "now' - T \<le> TTL_MS"
    using that by (simp add: store_eval url_eval string_eval date_eval)
  show ?thesis using 1 2 3 by blast
qed

theorem findMatch_time_rule_first_match_witness:
  "timeMatch Date_getTime (Some ''2024-01-15T10:05:00Z'') (stored 1705300000000 booking_E0)
   \<and> emailsAlign (stored 1705300000000 booking_E0) (Some ''A@X.com'') None
   \<and> fst (findMatch newURL Date_getTime 1705300600000 None (Some ''A@X.com'') None
            (Some ''2024-01-15T10:05:00Z'')
            [(''E0'', stored 1705300000000 booking_E0), (''E1'', stored 1705300000000 booking_E1)])
       = Some (stored 1705300000000 booking_E0)
   \<and> fst (findMatch newURL Date_getTime 1705300600000 (Some ''https://zoom.us/j/123'')
            (Some ''A@X.com'') None (Some ''2024-01-15T10:05:00Z'')
            (addBooking 1705300000000 booking_E1 []))
       = Some (stored 1705300000000 booking_E1)"
proof -
  have l: "[(''E0'', stored 1705300000000 booking_E0), (''E1'', stored 1705300000000 booking_E1)]
           = [] @ (''E0'', stored 1705300000000 booking_E0)
               # [(''E1'', stored 1705300000000 booking_E1)]"
    by simp
  have age: "1705300600000 - createdAt (stored 1705300000000 booking_E0) \<le> TTL_MS"
    by (simp add: TTL_MS_def)
  have c: "Some ''2024-01-15T10:05:00Z'' = Some ''2024-01-15T10:05:00Z''"
    "''2024-01-15T10:05:00Z'' \<noteq> []"
    by simp_all
  have r: "booking.startTime (stored 1705300000000 booking_E0) = Some ''2024-01-15T10:10:00Z''"
    "''2024-01-15T10:10:00Z'' \<noteq> []"
    by (simp_all add: store_eval)
  have d: "Date_getTime ''2024-01-15T10:10:00Z'' = Some 1705313400000"
    "Date_getTime ''2024-01-15T10:05:00Z'' = Some 1705313100000"
    by (simp_all add: date_eval)
  have w: "\<bar>1705313400000 - 1705313100000\<bar> \<le> (15 * 60 * 1000 :: int)" by simp
  have a: "emailsAlign (stored 1705300000000 booking_E0) (Some ''A@X.com'') None"
    by (simp add: store_eval string_eval)
  have tm: "timeMatch Date_getTime (Some ''2024-01-15T10:05:00Z'') (stored 1705300000000 booking_E0)"
    by (simp add: store_eval date_eval)
  have pre: "\<forall>(k', r') \<in> set []. 1705300600000 - createdAt r' \<le> TTL_MS
      \<longrightarrow> \<not> qualifies newURL Date_getTime None (Some ''A@X.com'') None
              (Some ''2024-01-15T10:05:00Z'') r'"
    by simp
  have sc: "1705300600000 - 1705300000000 \<le> TTL_MS" by (simp add: TTL_MS_def)
  show ?thesis
    using tm a pre sc
      findMatch_time_rule_first_match [OF l age c r d w a, of newURL None 1705300600000
        1705300000000]
    by blast
qed

text \<open>
  C4 as stated fails: a lead stored under a key that ends in white space is not returned
  by \<^verbatim>\<open>getPendingLead\<close> called with that key, because the key is normalized again
  and loses the white space.
\<close>

theorem getPendingLead_by_key_counterexample:
  "fst (addPendingLead ''2024-01-15T10:00:01.000Z'' (lead_x ''linkedin.com/in/x /'') Map.empty)
     = Some ''https://www.linkedin.com/in/x ''
   \<and> snd (addPendingLead ''2024-01-15T10:00:01.000Z'' (lead_x ''linkedin.com/in/x /'') Map.empty)
        ''https://www.linkedin.com/in/x '' \<noteq> None
   \<and> fst (getPendingLead (Some ''https://www.linkedin.com/in/x '')
          (snd (addPendingLead ''2024-01-15T10:00:01.000Z'' (lead_x ''linkedin.com/in/x /'')
                 Map.empty)))
       = None"
  by (simp add: lead_eval string_eval)

text \<open>
  C4, amended. For every lead stored in the pending-lead store under a key, a call of
  \<^verbatim>\<open>getPendingLead\<close> with any spelling that normalizes to the key returns the stored
  lead and removes it, so that a second call for the same URL, or for any spelling of the
  same key, returns absent: a lead is consumed at most once. The key itself is such a
  spelling exactly when it does not end in white space. A lead that
  \<^verbatim>\<open>addPendingLead\<close> has just stored is returned for every spelling that normalizes
  to the key that \<^verbatim>\<open>addPendingLead\<close> returned, and for that key itself when the URL of
  the lead holds no white space.
\<close>

theorem getPendingLead_consumes_once:
  assumes "pendingLeads key = Some l" and "key \<noteq> []"
    and "normalizeLinkedInUrl url = Some key"
  shows "getPendingLead url pendingLeads = (Some l, pendingLeads(key := None))
    \<and> fst (getPendingLead url (snd (getPendingLead url pendingLeads))) = None
    \<and> (\<forall>url'. normalizeLinkedInUrl url' = Some key
          \<longrightarrow> fst (getPendingLead url' (snd (getPendingLead url pendingLeads))) = None)
    \<and> ((\<exists>x. normalizeLinkedInUrl x = Some key)
       \<longrightarrow> (getPendingLead (Some key) pendingLeads = (Some l, pendingLeads(key := None)))
           = (\<not> isWhiteSpace (last key)))
    \<and> (fst (addPendingLead nowIso l' pendingLeads') = Some key
       \<longrightarrow> normalizeLinkedInUrl (linkedinUrl l') = Some key
           \<and> fst (getPendingLead url (snd (addPendingLead nowIso l' pendingLeads')))
               = Some (lead.extend (l'\<lparr>linkedinUrl := Some key\<rparr>)
                        (pending_lead.fields nowIso)))
    \<and> (linkedinUrl l0 = Some s \<and> (\<forall>c \<in> set s. \<not> isWhiteSpace c)
       \<and> fst (addPendingLead nowIso l0 pendingLeads') = Some key0
       \<longrightarrow> fst (getPendingLead (Some key0) (snd (addPendingLead nowIso l0 pendingLeads')))
           = Some (lead.extend (l0\<lparr>linkedinUrl := Some key0\<rparr>)
                    (pending_lead.fields nowIso)))"
proof -
  have 1: "getPendingLead url pendingLeads = (Some l, pendingLeads(key := None))"
    using assms by (rule getPendingLead_hit)
  have 3: "fst (getPendingLead url' (snd (getPendingLead url pendingLeads))) = None"
    if "normalizeLinkedInUrl url' = Some key" for url'
    using getPendingLead_miss [of "pendingLeads(key := None)" key url'] that by (simp add: 1)
  have 4: "(getPendingLead (Some key) pendingLeads = (Some l, pendingLeads(key := None)))
           = (\<not> isWhiteSpace (last key))"
    if ex: "\<exists>x. normalizeLinkedInUrl x = Some key"
  proof -
    obtain x where x: "normalizeLinkedInUrl x = Some key" using ex by blast
    have fx: "(normalizeLinkedInUrl (Some key) = Some key) = (\<not> isWhiteSpace (last key))"
      using normalize_fixed_iff [OF x] assms(2) by simp
    show ?thesis
    proof (cases "isWhiteSpace (last key)")
      case False
      then have "normalizeLinkedInUrl (Some key) = Some key" using fx by simp
      then show ?thesis
        using False getPendingLead_hit [of pendingLeads key l "Some key"] assms(1,2) by simp
    next
      case True
      then have ne: "normalizeLinkedInUrl (Some key) \<noteq> Some key" using fx by simp
      have "snd (getPendingLead (Some key) pendingLeads) key \<noteq> None"
        using ne assms(1)
        by (auto simp: getPendingLead_def split: option.splits if_splits)
      then have "getPendingLead (Some key) pendingLeads \<noteq> (Some l, pendingLeads(key := None))"
        by auto
      then show ?thesis using True by simp
    qed
  qed
  have 5: "normalizeLinkedInUrl (linkedinUrl l') = Some key
           \<and> fst (getPendingLead url (snd (addPendingLead nowIso l' pendingLeads')))
               = Some (lead.extend (l'\<lparr>linkedinUrl := Some key\<rparr>)
                        (pending_lead.fields nowIso))"
    if "fst (addPendingLead nowIso l' pendingLeads') = Some key"
    using addPendingLead_Some [OF that] assms(2,3) by (simp add: getPendingLead_def)
  have 6: "fst (getPendingLead (Some key0) (snd (addPendingLead nowIso l0 pendingLeads')))
           = Some (lead.extend (l0\<lparr>linkedinUrl := Some key0\<rparr>)
                    (pending_lead.fields nowIso))"
    if u: "linkedinUrl l0 = Some s" and ws: "\<forall>c \<in> set s. \<not> isWhiteSpace c"
      and a: "fst (addPendingLead nowIso l0 pendingLeads') = Some key0"
  proof -
    note b = addPendingLead_Some [OF a]
    have n: "normalizeLinkedInUrl (Some s) = Some key0" and k: "key0 \<noteq> []"
      using b u by simp_all
    have "\<not> isWhiteSpace (last key0)" using ws n k by (rule normalize_no_white_space)
    then have "normalizeLinkedInUrl (Some key0) = Some key0"
      using normalize_fixed [OF n k] by simp
    then show ?thesis using b k by (simp add: getPendingLead_def)
  qed
  show ?thesis using 1 3 [OF assms(3)] 3 4 5 6 by blast
qed


theorem getPendingLead_consumes_once_witness:
  "normalizeLinkedInUrl (Some ''linkedin.com/in/johndoe/'') = Some ''https://www.linkedin.com/in/johndoe''
   \<and> fst (addPendingLead ''2024-01-15T10:00:01.000Z''
            (lead_x ''https://www.linkedin.com/in/JohnDoe?trk=x'') Map.empty)
       = Some ''https://www.linkedin.com/in/johndoe''
   \<and> fst (getPendingLead (Some ''linkedin.com/in/johndoe/'')
            (snd (addPendingLead ''2024-01-15T10:00:01.000Z''
                   (lead_x ''https://www.linkedin.com/in/JohnDoe?trk=x'') Map.empty)))
       = Some (lead.extend
                 ((lead_x ''https://www.linkedin.com/in/JohnDoe?trk=x'')
                    \<lparr>linkedinUrl := Some ''https://www.linkedin.com/in/johndoe''\<rparr>)
                 (pending_lead.fields ''2024-01-15T10:00:01.000Z''))
   \<and> fst (getPendingLead (Some ''linkedin.com/in/johndoe/'')
            (snd (getPendingLead (Some ''linkedin.com/in/johndoe/'')
                   (snd (addPendingLead ''2024-01-15T10:00:01.000Z''
                          (lead_x ''https://www.linkedin.com/in/JohnDoe?trk=x'') Map.empty)))))
       = None
   \<and> fst (getPendingLead (Some ''https://www.linkedin.com/in/johndoe'')
            (snd (addPendingLead ''2024-01-15T10:00:01.000Z''
                   (lead_x ''https://www.linkedin.com/in/JohnDoe?trk=x'') Map.empty)))
       = Some (lead.extend
                 ((lead_x ''https://www.linkedin.com/in/JohnDoe?trk=x'')
                    \<lparr>linkedinUrl := Some ''https://www.linkedin.com/in/johndoe''\<rparr>)
                 (pending_lead.fields ''2024-01-15T10:00:01.000Z''))"
proof -
  let ?l = "lead_x ''https://www.linkedin.com/in/JohnDoe?trk=x''"
  let ?key = "''https://www.linkedin.com/in/johndoe''"
  let ?v = "lead.extend (?l\<lparr>linkedinUrl := Some ?key\<rparr>)
              (pending_lead.fields ''2024-01-15T10:00:01.000Z'')"
  let ?S = "snd (addPendingLead ''2024-01-15T10:00:01.000Z'' ?l Map.empty)"
  have n: "normalizeLinkedInUrl (Some ''linkedin.com/in/johndoe/'') = Some ?key"
    by (simp add: lead_eval string_eval)
  have a: "fst (addPendingLead ''2024-01-15T10:00:01.000Z'' ?l Map.empty) = Some ?key"
    by (simp add: lead_eval string_eval)
  have s: "?S ?key = Some ?v"
    using addPendingLead_Some [OF a] by simp
  have k: "?key \<noteq> []" by simp
  note t = getPendingLead_consumes_once [of ?S ?key ?v "Some ''linkedin.com/in/johndoe/''",
      OF s k n]
  have g: "fst (getPendingLead (Some ''linkedin.com/in/johndoe/'') ?S) = Some ?v"
    using t by simp
  have h: "fst (getPendingLead (Some ''linkedin.com/in/johndoe/'')
            (snd (getPendingLead (Some ''linkedin.com/in/johndoe/'') ?S))) = None"
    using t by blast
  have u: "linkedinUrl ?l = Some ''https://www.linkedin.com/in/JohnDoe?trk=x''"
    by (simp add: lead_x_def)
  have w: "\<forall>c \<in> set ''https://www.linkedin.com/in/JohnDoe?trk=x''. \<not> isWhiteSpace c"
    by (simp add: isWhiteSpace_def)
  have f: "fst (getPendingLead (Some ?key) ?S) = Some ?v"
    using u w a
      getPendingLead_consumes_once [of ?S ?key ?v "Some ''linkedin.com/in/johndoe/''"
        "''2024-01-15T10:00:01.000Z''" _ Map.empty ?l
        "''https://www.linkedin.com/in/JohnDoe?trk=x''" ?key, OF s k n]
    by blast
  show ?thesis using n a g h f by blast
qed




text \<open>
  C9 as stated fails: \<^verbatim>\<open>addPendingLead\<close> stores a lead under a key that
  \<^verbatim>\<open>normalizeLinkedInUrl\<close> does not leave as it is.
\<close>

theorem addPendingLead_key_not_fixed_point_counterexample:
  "fst (addPendingLead ''2024-01-15T10:00:01.000Z'' (lead_x ''linkedin.com/in/jane ?trk=1'')
          Map.empty)
     = Some ''https://www.linkedin.com/in/jane ''
   \<and> snd (addPendingLead ''2024-01-15T10:00:01.000Z'' (lead_x ''linkedin.com/in/jane ?trk=1'')
            Map.empty) ''https://www.linkedin.com/in/jane ''
       \<noteq> None
   \<and> normalizeLinkedInUrl (Some ''https://www.linkedin.com/in/jane '')
       = Some ''https://www.linkedin.com/in/jane''
   \<and> normalizeLinkedInUrl (Some ''https://www.linkedin.com/in/jane '')
       \<noteq> Some ''https://www.linkedin.com/in/jane ''"
  by (simp add: lead_eval string_eval)

text \<open>
  C9, amended. The invariant of the pending-lead store holds of the empty store and is
  preserved by \<^verbatim>\<open>addPendingLead\<close>, \<^verbatim>\<open>getPendingLead\<close> and \<^verbatim>\<open>hasPendingLead\<close>:
  every key is a non-empty result of \<^verbatim>\<open>normalizeLinkedInUrl\<close>, and the
  \<^verbatim>\<open>linkedinUrl\<close> field of the entry equals its key. Such a key is a fixed point of
  \<^verbatim>\<open>normalizeLinkedInUrl\<close> exactly when it does not end in white space, as is every
  key made from a URL without white space. \<^verbatim>\<open>addPendingLead\<close> stores the lead with its
  URL replaced by the key and stamps it with \<^verbatim>\<open>addedAt\<close>.
\<close>

theorem pending_lead_store_invariant:
  "lead_store_inv Map.empty
   \<and> (lead_store_inv pendingLeads
      \<longrightarrow> lead_store_inv (snd (addPendingLead nowIso l pendingLeads))
          \<and> lead_store_inv (snd (getPendingLead url pendingLeads))
          \<and> lead_store_inv (snd (hasPendingLead url pendingLeads)))
   \<and> (fst (addPendingLead nowIso l pendingLeads) = Some key
      \<longrightarrow> (\<exists>v. snd (addPendingLead nowIso l pendingLeads) key = Some v
               \<and> addedAt v = nowIso \<and> linkedinUrl v = Some key
               \<and> lead.truncate v = l\<lparr>linkedinUrl := Some key\<rparr>))
   \<and> (lead_store_inv pendingLeads \<and> pendingLeads key' = Some v'
      \<longrightarrow> (normalizeLinkedInUrl (Some key') = Some key') = (\<not> isWhiteSpace (last key')))
   \<and> (linkedinUrl l = Some s \<and> (\<forall>c \<in> set s. \<not> isWhiteSpace c)
       \<and> fst (addPendingLead nowIso l pendingLeads) = Some key
      \<longrightarrow> normalizeLinkedInUrl (Some key) = Some key)"
proof -
  have 1: "lead_store_inv Map.empty" by (simp add: lead_store_inv_def)
  have 2: "lead_store_inv (snd (addPendingLead nowIso l pendingLeads))
          \<and> lead_store_inv (snd (getPendingLead url pendingLeads))
          \<and> lead_store_inv (snd (hasPendingLead url pendingLeads))"
    if "lead_store_inv pendingLeads"
    using that inv_add inv_get inv_has by simp
  have 3: "\<exists>v. snd (addPendingLead nowIso l pendingLeads) key = Some v
               \<and> addedAt v = nowIso \<and> linkedinUrl v = Some key
               \<and> lead.truncate v = l\<lparr>linkedinUrl := Some key\<rparr>"
    if "fst (addPendingLead nowIso l pendingLeads) = Some key"
    using addPendingLead_Some [OF that] by (simp add: stamped)
  have 4: "(normalizeLinkedInUrl (Some key') = Some key') = (\<not> isWhiteSpace (last key'))"
    if inv: "lead_store_inv pendingLeads" and kv: "pendingLeads key' = Some v'"
  proof -
    obtain x where "key' \<noteq> []" "normalizeLinkedInUrl x = Some key'"
      using inv kv unfolding lead_store_inv_def by blast
    then show ?thesis using normalize_fixed_iff by simp
  qed
  have 5: "normalizeLinkedInUrl (Some key) = Some key"
    if u: "linkedinUrl l = Some s" and ws: "\<forall>c \<in> set s. \<not> isWhiteSpace c"
      and a: "fst (addPendingLead nowIso l pendingLeads) = Some key"
  proof -
    have n: "normalizeLinkedInUrl (Some s) = Some key" and k: "key \<noteq> []"
      using addPendingLead_Some [OF a] u by simp_all
    have "\<not> isWhiteSpace (last key)" using ws n k by (rule normalize_no_white_space)
    then show ?thesis using normalize_fixed [OF n k] by simp
  qed
  show ?thesis using 1 2 3 4 5 by blast
qed

theorem pending_lead_store_invariant_witness:
  "lead_store_inv
     (snd (addPendingLead ''2024-01-15T10:00:01.000Z''
             (lead_x ''https://www.linkedin.com/in/JohnDoe?trk=x'') Map.empty))
   \<and> lead_store_inv
       (snd (getPendingLead (Some ''linkedin.com/in/johndoe/'')
               (snd (addPendingLead ''2024-01-15T10:00:01.000Z''
                       (lead_x ''https://www.linkedin.com/in/JohnDoe?trk=x'') Map.empty))))
   \<and> lead_store_inv
       (snd (hasPendingLead (Some ''linkedin.com/in/johndoe/'')
               (snd (addPendingLead ''2024-01-15T10:00:01.000Z''
                       (lead_x ''https://www.linkedin.com/in/JohnDoe?trk=x'') Map.empty))))
   \<and> fst (hasPendingLead (Some ''linkedin.com/in/johndoe/'')
            (snd (addPendingLead ''2024-01-15T10:00:01.000Z''
                    (lead_x ''https://www.linkedin.com/in/JohnDoe?trk=x'') Map.empty)))
   \<and> fst (addPendingLead ''2024-01-15T10:00:01.000Z''
            (lead_x ''https://www.linkedin.com/in/JohnDoe?trk=x'') Map.empty)
       = Some ''https://www.linkedin.com/in/johndoe''
   \<and> normalizeLinkedInUrl (Some ''https://www.linkedin.com/in/johndoe'')
       = Some ''https://www.linkedin.com/in/johndoe''"
proof -
  let ?l = "lead_x ''https://www.linkedin.com/in/JohnDoe?trk=x''"
  let ?S = "snd (addPendingLead ''2024-01-15T10:00:01.000Z'' ?l Map.empty)"
  note t0 = pending_lead_store_invariant [of Map.empty "''2024-01-15T10:00:01.000Z''" ?l]
  have i0: "lead_store_inv Map.empty" using t0 by blast
  have i1: "lead_store_inv ?S" using i0 t0 by blast
  note t1 = pending_lead_store_invariant [of ?S "''2024-01-15T10:00:01.000Z''" ?l
      "Some ''linkedin.com/in/johndoe/''"]
  have i2: "lead_store_inv (snd (getPendingLead (Some ''linkedin.com/in/johndoe/'') ?S))"
    "lead_store_inv (snd (hasPendingLead (Some ''linkedin.com/in/johndoe/'') ?S))"
    using i1 t1 by blast+
  have h: "fst (hasPendingLead (Some ''linkedin.com/in/johndoe/'') ?S)"
    by (simp add: lead_eval string_eval)
  have a: "fst (addPendingLead ''2024-01-15T10:00:01.000Z'' ?l Map.empty)
       = Some ''https://www.linkedin.com/in/johndoe''"
    by (simp add: lead_eval string_eval)
  obtain v where v: "?S ''https://www.linkedin.com/in/johndoe'' = Some v"
    using a t0 by blast
  have w: "\<not> isWhiteSpace (last ''https://www.linkedin.com/in/johndoe'')"
    by (simp add: isWhiteSpace_def)
  have f: "normalizeLinkedInUrl (Some ''https://www.linkedin.com/in/johndoe'')
       = Some ''https://www.linkedin.com/in/johndoe''"
    using i1 v w
      pending_lead_store_invariant [of ?S _ _ _ _ "''https://www.linkedin.com/in/johndoe''" v]
    by blast
  show ?thesis using i1 i2 h a f by blast
qed

end
